theory Spec2Isabelle
  imports Complex_Main "HOL-Library.Word" "HOL-Library.List_Lexorder"
begin

text \<open>
  SecLogAI, a dashboard for security logs.  The model covers, from
  \<open>services/geminiService.ts\<close>, the truncation in \<open>analyzeLogsWithGemini\<close> and the
  generator \<open>generateDemoLogs\<close>, and from the component \<open>App\<close>, the upload handler
  \<open>handleFileUpload\<close>, the chat handler \<open>handleChatSubmit\<close> and the derived values
  \<open>stats\<close> and \<open>chartData\<close>.  What belongs to the runtime or to a library (the clock,
  \<open>Math.random\<close>, the time zone, \<open>JSON.stringify\<close>, \<open>toLowerCase\<close>) is a parameter;
  \<open>JSON.parse\<close> is written out after its grammar.
\<close>

section \<open>JavaScript strings\<close>

text \<open>
  A JavaScript string is a sequence of UTF-16 code units: \<open>length\<close>, \<open>substring\<close>,
  \<open>trim\<close>, \<open>startsWith\<close>, \<open>split\<close> and \<open>includes\<close> all count and compare code
  units.  A literal of the source is written \<open>str ''...''\<close>.
\<close>

type_synonym code_unit = "16 word"
type_synonym js_string = "code_unit list"

definition str :: "string \<Rightarrow> js_string" where
  "str s = map (\<lambda>c. of_nat (of_char c)) s"

text \<open>
  \<open>String.prototype.trim\<close> strips the code points of WhiteSpace and LineTerminator
  (ECMA-262, 12.2 and 12.3) from both ends; all of them are single code units.
\<close>

definition is_js_whitespace :: "code_unit \<Rightarrow> bool" where
  "is_js_whitespace c \<longleftrightarrow>
     c = 0x0009 \<or> c = 0x000A \<or> c = 0x000B \<or> c = 0x000C \<or> c = 0x000D \<or> c = 0x0020 \<or>
     c = 0x00A0 \<or> c = 0x1680 \<or> (0x2000 \<le> c \<and> c \<le> 0x200A) \<or> c = 0x2028 \<or> c = 0x2029 \<or>
     c = 0x202F \<or> c = 0x205F \<or> c = 0x3000 \<or> c = 0xFEFF"

definition trim :: "js_string \<Rightarrow> js_string" where
  "trim s = rev (dropWhile is_js_whitespace (rev (dropWhile is_js_whitespace s)))"

definition startsWith :: "js_string \<Rightarrow> js_string \<Rightarrow> bool" where
  "startsWith s p \<longleftrightarrow> take (length p) s = p"

text \<open>\<open>s.includes(p)\<close>: \<open>p\<close> occurs in \<open>s\<close> as a contiguous run of code units.\<close>

fun includes_str :: "js_string \<Rightarrow> js_string \<Rightarrow> bool" where
  "includes_str [] p = (p = [])"
| "includes_str (c # cs) p = (startsWith (c # cs) p \<or> includes_str cs p)"

text \<open>
  \<open>s.split('\n')\<close>: the pieces between line feeds, empty pieces included; the empty
  string gives one empty piece.
\<close>

fun split_lf :: "js_string \<Rightarrow> js_string list" where
  "split_lf [] = [[]]"
| "split_lf (c # cs) =
     (if c = 0x000A then [] # split_lf cs
      else (case split_lf cs of [] \<Rightarrow> [[c]] | l # ls \<Rightarrow> (c # l) # ls))"

section \<open>Values of the runtime\<close>

text \<open>
  What \<open>JSON.parse\<close> returns has the static type \<open>any\<close>; the application stores it
  as \<open>LogEntry[]\<close> without a check, so the batch held by the application is a list of
  arbitrary JSON values.  An object is the list of its members in source order; a later
  member with the same key overrides an earlier one.  A number is kept as the exact value
  of its literal (the runtime rounds it to the nearest IEEE-754 double).
\<close>

datatype jsval =
    JNull
  | JBool bool
  | JNum rat
  | JStr js_string
  | JArr "jsval list"
  | JObj "(js_string \<times> jsval) list"

datatype exn = SyntaxError | TypeError | RangeError

section \<open>JSON.parse\<close>

text \<open>
  \<open>JSON.parse\<close> belongs to the runtime, not to the repository.  It is written out here
  after the JSON grammar of ECMA-404 (which ECMA-262, 25.5.1 prescribes), as a
  recursive-descent parser on code units; \<open>None\<close> stands for the \<open>SyntaxError\<close> that
  \<open>JSON.parse\<close> throws.
\<close>

definition is_json_ws :: "code_unit \<Rightarrow> bool" where
  "is_json_ws c \<longleftrightarrow> c = 0x0009 \<or> c = 0x000A \<or> c = 0x000D \<or> c = 0x0020"

definition skip_ws :: "js_string \<Rightarrow> js_string" where
  "skip_ws cs = dropWhile is_json_ws cs"

definition is_digit :: "code_unit \<Rightarrow> bool" where
  "is_digit c \<longleftrightarrow> 0x0030 \<le> c \<and> c \<le> 0x0039"

definition digit_val :: "code_unit \<Rightarrow> nat" where
  "digit_val c = unat c - 48"

definition hex_val :: "code_unit \<Rightarrow> nat option" where
  "hex_val c =
     (if 0x0030 \<le> c \<and> c \<le> 0x0039 then Some (unat c - 48)
      else if 0x0041 \<le> c \<and> c \<le> 0x0046 then Some (unat c - 55)
      else if 0x0061 \<le> c \<and> c \<le> 0x0066 then Some (unat c - 87)
      else None)"

definition simple_escape :: "code_unit \<Rightarrow> code_unit option" where
  "simple_escape c =
     (if c = 0x0022 then Some 0x0022
      else if c = 0x005C then Some 0x005C
      else if c = 0x002F then Some 0x002F
      else if c = 0x0062 then Some 0x0008
      else if c = 0x0066 then Some 0x000C
      else if c = 0x006E then Some 0x000A
      else if c = 0x0072 then Some 0x000D
      else if c = 0x0074 then Some 0x0009
      else None)"

definition unicode_escape :: "code_unit \<Rightarrow> code_unit \<Rightarrow> code_unit \<Rightarrow> code_unit \<Rightarrow> code_unit option" where
  "unicode_escape a b c d =
     (case (hex_val a, hex_val b, hex_val c, hex_val d) of
        (Some h3, Some h2, Some h1, Some h0) \<Rightarrow> Some (of_nat (((h3 * 16 + h2) * 16 + h1) * 16 + h0))
      | _ \<Rightarrow> None)"

text \<open>The characters of a string literal after its opening quote, and the rest of the input.\<close>

fun parse_chars :: "js_string \<Rightarrow> (js_string \<times> js_string) option" where
  "parse_chars [] = None"
| "parse_chars (c # cs) =
     (if c = 0x0022 then Some ([], cs)
      else if c = 0x005C then
        (case cs of
           [] \<Rightarrow> None
         | e # cs' \<Rightarrow>
             if e = 0x0075 then
               (case cs' of
                  a # b # c' # d # cs'' \<Rightarrow>
                    (case unicode_escape a b c' d of
                       None \<Rightarrow> None
                     | Some u \<Rightarrow> map_option (\<lambda>(s, r). (u # s, r)) (parse_chars cs''))
                | _ \<Rightarrow> None)
             else
               (case simple_escape e of
                  None \<Rightarrow> None
                | Some u \<Rightarrow> map_option (\<lambda>(s, r). (u # s, r)) (parse_chars cs')))
      else if c < 0x0020 then None
      else map_option (\<lambda>(s, r). (c # s, r)) (parse_chars cs))"

definition digits_val :: "js_string \<Rightarrow> nat" where
  "digits_val ds = foldl (\<lambda>n d. 10 * n + digit_val d) 0 ds"

text \<open>
  A number literal: an optional minus, an integer part without leading zero, an optional
  fraction and an optional exponent.
\<close>

definition parse_int_part :: "js_string \<Rightarrow> (nat \<times> js_string) option" where
  "parse_int_part cs =
     (case cs of
        [] \<Rightarrow> None
      | c # cs' \<Rightarrow>
          if c = 0x0030 then Some (0, cs')
          else if is_digit c then Some (digits_val (takeWhile is_digit cs), dropWhile is_digit cs)
          else None)"

definition parse_frac :: "js_string \<Rightarrow> (rat \<times> js_string) option" where
  "parse_frac cs =
     (case cs of
        c # cs' \<Rightarrow>
          if c = 0x002E then
            (let ds = takeWhile is_digit cs' in
             if ds = [] then None
             else Some (of_nat (digits_val ds) / 10 ^ length ds, dropWhile is_digit cs'))
          else Some (0, cs)
      | [] \<Rightarrow> Some (0, cs))"

definition parse_exp_digits :: "js_string \<Rightarrow> (nat \<times> js_string) option" where
  "parse_exp_digits cs =
     (let ds = takeWhile is_digit cs in
      if ds = [] then None else Some (digits_val ds, dropWhile is_digit cs))"

definition parse_exp :: "js_string \<Rightarrow> (int \<times> js_string) option" where
  "parse_exp cs =
     (case cs of
        c # cs' \<Rightarrow>
          if c = 0x0065 \<or> c = 0x0045 then
            (case cs' of
               s # cs'' \<Rightarrow>
                 if s = 0x002B then map_option (\<lambda>(n, r). (int n, r)) (parse_exp_digits cs'')
                 else if s = 0x002D then map_option (\<lambda>(n, r). (- int n, r)) (parse_exp_digits cs'')
                 else map_option (\<lambda>(n, r). (int n, r)) (parse_exp_digits cs')
             | [] \<Rightarrow> None)
          else Some (0, cs)
      | [] \<Rightarrow> Some (0, cs))"

definition parse_unsigned :: "js_string \<Rightarrow> (rat \<times> js_string) option" where
  "parse_unsigned cs =
     (case parse_int_part cs of
        None \<Rightarrow> None
      | Some (n, r1) \<Rightarrow>
          (case parse_frac r1 of
             None \<Rightarrow> None
           | Some (f, r2) \<Rightarrow>
               (case parse_exp r2 of
                  None \<Rightarrow> None
                | Some (e, r3) \<Rightarrow> Some ((of_nat n + f) * (if 0 \<le> e then 10 ^ nat e else 1 / 10 ^ nat (- e)), r3))))"

definition parse_number :: "js_string \<Rightarrow> (rat \<times> js_string) option" where
  "parse_number cs =
     (case cs of
        c # cs' \<Rightarrow>
          if c = 0x002D then map_option (\<lambda>(q, r). (- q, r)) (parse_unsigned cs')
          else parse_unsigned cs
      | [] \<Rightarrow> None)"

lemma skip_ws_length: "length (skip_ws cs) \<le> length cs"
  by (simp add: skip_ws_def length_dropWhile_le)

lemma skip_ws_Cons_length: "skip_ws r = d # ds \<Longrightarrow> length ds < length r"
  using skip_ws_length [of r] by simp

lemma parse_chars_shorter: "parse_chars cs = Some (k, r) \<Longrightarrow> length r < length cs"
proof (induction cs arbitrary: k r rule: length_induct)
  case (1 xs)
  have IH: "\<And>ys k r. length ys < length xs \<Longrightarrow> parse_chars ys = Some (k, r) \<Longrightarrow> length r < length ys"
    using "1.IH" by blast
  show ?case
  proof (cases xs)
    case Nil
    with "1.prems" show ?thesis by simp
  next
    case (Cons c cs)
    show ?thesis
    proof (cases "c = 0x0022")
      case True
      with Cons "1.prems" show ?thesis by simp
    next
      case nq: False
      show ?thesis
      proof (cases "c = 0x005C")
        case False
        with nq Cons "1.prems" obtain s where "parse_chars cs = Some (s, r)"
          by (auto split: if_splits)
        from IH [OF _ this] Cons show ?thesis by simp
      next
        case True
        show ?thesis
        proof (cases cs)
          case Nil
          with True nq Cons "1.prems" show ?thesis by simp
        next
          case (Cons e cs')
          note cs = this
          show ?thesis
          proof (cases "e = 0x0075")
            case False
            with True \<open>xs = c # cs\<close> cs "1.prems" obtain s where "parse_chars cs' = Some (s, r)"
              by (auto split: option.splits)
            from IH [OF _ this] \<open>xs = c # cs\<close> cs show ?thesis by simp
          next
            case u: True
            with True \<open>xs = c # cs\<close> cs "1.prems"
            obtain a b c' d cs'' s where "cs' = a # b # c' # d # cs''" "parse_chars cs'' = Some (s, r)"
              by (auto split: option.splits list.splits)
            from IH [OF _ this(2)] this(1) \<open>xs = c # cs\<close> cs show ?thesis by simp
          qed
        qed
      qed
    qed
  qed
qed

text \<open>
  Values, array elements and object members.  \<open>parse_elements\<close> and \<open>parse_members\<close>
  start at the first element or member, after the opening bracket and white space.  The
  tests \<open>length r < length cs\<close> are there for the termination proof only: a value never
  has zero length, see \<open>parse_value_shorter\<close>.
\<close>

function parse_value :: "js_string \<Rightarrow> (jsval \<times> js_string) option"
  and parse_elements :: "js_string \<Rightarrow> (jsval list \<times> js_string) option"
  and parse_members :: "js_string \<Rightarrow> ((js_string \<times> jsval) list \<times> js_string) option"
where
  "parse_value cs =
     (case cs of
        [] \<Rightarrow> None
      | c # cs' \<Rightarrow>
          if c = 0x005B then
            (case skip_ws cs' of
               [] \<Rightarrow> None
             | d # ds \<Rightarrow>
                 if d = 0x005D then Some (JArr [], ds)
                 else map_option (\<lambda>(vs, r). (JArr vs, r)) (parse_elements (skip_ws cs')))
          else if c = 0x007B then
            (case skip_ws cs' of
               [] \<Rightarrow> None
             | d # ds \<Rightarrow>
                 if d = 0x007D then Some (JObj [], ds)
                 else map_option (\<lambda>(ms, r). (JObj ms, r)) (parse_members (skip_ws cs')))
          else if c = 0x0022 then map_option (\<lambda>(s, r). (JStr s, r)) (parse_chars cs')
          else if startsWith cs (str ''true'') then Some (JBool True, drop 4 cs)
          else if startsWith cs (str ''false'') then Some (JBool False, drop 5 cs)
          else if startsWith cs (str ''null'') then Some (JNull, drop 4 cs)
          else map_option (\<lambda>(q, r). (JNum q, r)) (parse_number cs))"
| "parse_elements cs =
     (case parse_value cs of
        None \<Rightarrow> None
      | Some (v, r) \<Rightarrow>
          if length r < length cs then
            (case skip_ws r of
               [] \<Rightarrow> None
             | d # ds \<Rightarrow>
                 if d = 0x005D then Some ([v], ds)
                 else if d = 0x002C then
                   map_option (\<lambda>(vs, r'). (v # vs, r')) (parse_elements (skip_ws ds))
                 else None)
          else None)"
| "parse_members cs =
     (case cs of
        [] \<Rightarrow> None
      | q # cs' \<Rightarrow>
          if q = 0x0022 then
            (case parse_chars cs' of
               None \<Rightarrow> None
             | Some (k, r0) \<Rightarrow>
                   (case skip_ws r0 of
                      [] \<Rightarrow> None
                    | col # r1 \<Rightarrow>
                        if col = 0x003A then
                          (case parse_value (skip_ws r1) of
                             None \<Rightarrow> None
                           | Some (v, r) \<Rightarrow>
                               if length r < length cs then
                                 (case skip_ws r of
                                    [] \<Rightarrow> None
                                  | d # ds \<Rightarrow>
                                      if d = 0x007D then Some ([(k, v)], ds)
                                      else if d = 0x002C then
                                        map_option (\<lambda>(ms, r'). ((k, v) # ms, r')) (parse_members (skip_ws ds))
                                      else None)
                               else None)
                        else None))
          else None)"
  by pat_completeness auto
termination parse_value
  apply (relation "measure (\<lambda>x. case x of Inl cs \<Rightarrow> 2 * length cs
            | Inr (Inl cs) \<Rightarrow> 2 * length cs + 1 | Inr (Inr cs) \<Rightarrow> 2 * length cs + 1)")
  apply simp_all
  subgoal for cs c cs' d ds using skip_ws_Cons_length [of cs' d ds] by simp
  subgoal for cs c cs' d ds using skip_ws_Cons_length [of cs' d ds] by simp
  subgoal for cs p v r d ds using skip_ws_Cons_length [of r _ ds] skip_ws_length [of ds] by simp
  subgoal for cs q cs' p k r0 col r1
    using parse_chars_shorter [of cs' k r0] skip_ws_Cons_length [of r0 _ r1] skip_ws_length [of r1] by auto
  subgoal for cs q cs' p k r0 col r1 p' v r d ds
    using skip_ws_Cons_length [of r _ ds] skip_ws_length [of ds] by simp
  done

declare parse_value.simps [simp del] parse_elements.simps [simp del] parse_members.simps [simp del]

text \<open>A JSON text is one value between optional white space.\<close>

definition JSON_parse :: "js_string \<Rightarrow> jsval option" where
  "JSON_parse text =
     (case parse_value (skip_ws text) of
        None \<Rightarrow> None
      | Some (v, r) \<Rightarrow> if skip_ws r = [] then Some v else None)"

section \<open>The truncation in \<open>analyzeLogsWithGemini\<close>\<close>

text \<open>
  \<open>analyzeLogsWithGemini(logs)\<close> cuts the text at \<open>MAX_CHARS\<close> code units and, when it
  did, appends a note; the text handed to the model is
  \<open>`Analyze these logs:\n${processedLogs}${truncationNote}`\<close>.
\<close>

definition MAX_CHARS :: nat where
  "MAX_CHARS = 500000"

definition processedLogs :: "js_string \<Rightarrow> js_string" where
  "processedLogs logs = (if length logs > MAX_CHARS then take MAX_CHARS logs else logs)"

definition truncationNote :: "js_string \<Rightarrow> js_string" where
  "truncationNote logs =
     (if length logs > MAX_CHARS
      then str ''\<newline>\<newline>[NOTE: Logs were truncated for analysis due to size constraints. Showing first 500k characters.]''
      else [])"

definition contents_text :: "js_string \<Rightarrow> js_string" where
  "contents_text logs = str ''Analyze these logs:\<newline>'' @ processedLogs logs @ truncationNote logs"

section \<open>The application state and the upload handler\<close>

text \<open>
  Of the state of \<open>App\<close> the model keeps the batch \<open>logs\<close> and, as \<open>requests\<close>, the
  texts handed to \<open>processLogs\<close> so far, in order.  \<open>processLogs\<close> is asynchronous and
  catches its own errors: calling it never throws, and what it does later to the messages
  depends on the answer of the external service.
\<close>

record app_state =
  logs :: "jsval list"
  requests :: "js_string list"

definition setLogs :: "jsval list \<Rightarrow> app_state \<Rightarrow> app_state" where
  "setLogs v st = st\<lparr>logs := v\<rparr>"

definition processLogs :: "js_string \<Rightarrow> app_state \<Rightarrow> app_state" where
  "processLogs logText st = st\<lparr>requests := requests st @ [logText]\<rparr>"

text \<open>
  The raw-text branch.  \<open>filter(l => l.trim())\<close> keeps the lines whose trimmed form is not
  empty.  Each kept line reads the clock once: \<open>clock i\<close> is the value of
  \<open>new Date().toISOString()\<close> at the \<open>i\<close>-th kept line.
\<close>

definition lines_of :: "js_string \<Rightarrow> js_string list" where
  "lines_of text = filter (\<lambda>l. trim l \<noteq> []) (split_lf text)"

definition raw_entry :: "js_string \<Rightarrow> js_string \<Rightarrow> jsval" where
  "raw_entry now line =
     JObj [(str ''timestamp'', JStr now), (str ''ip'', JStr (str ''Unknown'')),
           (str ''action'', JStr (str ''RAW_LOG'')), (str ''message'', JStr line)]"

definition parsedLogs :: "(nat \<Rightarrow> js_string) \<Rightarrow> js_string \<Rightarrow> jsval list" where
  "parsedLogs clock text = map (\<lambda>(i, line). raw_entry (clock i) line) (enumerate 0 (lines_of text))"

text \<open>
  The body of the \<open>try\<close> of \<open>reader.onload\<close>: \<open>Inl\<close> is the exception that leaves it.
  \<open>JSON.parse\<close> throws before \<open>setLogs\<close> runs, so the state at the \<open>catch\<close> is the
  state at the start.
\<close>

definition looks_structured :: "js_string \<Rightarrow> bool" where
  "looks_structured text \<longleftrightarrow>
     startsWith (trim text) (str ''['') \<or> startsWith (trim text) (str ''{'')"

definition try_block :: "(nat \<Rightarrow> js_string) \<Rightarrow> js_string \<Rightarrow> app_state \<Rightarrow> exn + app_state" where
  "try_block clock text st =
     (if looks_structured text then
        (case JSON_parse text of
           None \<Rightarrow> Inl SyntaxError
         | Some parsed \<Rightarrow>
             Inr (processLogs text (setLogs (case parsed of JArr xs \<Rightarrow> xs | _ \<Rightarrow> [parsed]) st)))
      else Inr (processLogs text (setLogs (parsedLogs clock text) st)))"

definition onload :: "(nat \<Rightarrow> js_string) \<Rightarrow> js_string \<Rightarrow> app_state \<Rightarrow> app_state" where
  "onload clock text st =
     (case try_block clock text st of
        Inl err \<Rightarrow> processLogs text st
      | Inr st' \<Rightarrow> st')"

text \<open>\<open>handleFileUpload\<close>: without a file the handler returns at once.\<close>

definition handleFileUpload :: "(nat \<Rightarrow> js_string) \<Rightarrow> js_string option \<Rightarrow> app_state \<Rightarrow> app_state" where
  "handleFileUpload clock file st =
     (case file of None \<Rightarrow> st | Some text \<Rightarrow> onload clock text st)"

text \<open>Inputs and states used in the examples.\<close>

definition example_clock :: "nat \<Rightarrow> js_string" where
  "example_clock i = str ''2026-01-01T00:00:00.000Z''"

definition empty_state :: app_state where
  "empty_state = \<lparr>logs = [], requests = []\<rparr>"

definition loaded_state :: app_state where
  "loaded_state =
     \<lparr>logs = [raw_entry (str ''2026-01-01T00:00:00.000Z'') (str ''boot'')], requests = [str ''boot'']\<rparr>"

section \<open>Reading the batch\<close>

text \<open>
  \<open>l.timestamp\<close>, \<open>l.ip\<close>, \<open>l.action\<close>, \<open>l.status_code\<close>, \<open>l.event_id\<close> and
  \<open>l.severity\<close> on a value of the runtime.  Reading a property of \<open>null\<close> throws a
  \<open>TypeError\<close>; an object gives the value of its last member of that name, and
  \<open>undefined\<close> (here \<open>None\<close>) when it has none; a boolean, a number, a string or an array
  has no property of these names.
\<close>

fun get_prop :: "jsval \<Rightarrow> js_string \<Rightarrow> exn + jsval option" where
  "get_prop JNull k = Inl TypeError"
| "get_prop (JObj ms) k = Inr (map_of (rev ms) k)"
| "get_prop v k = Inr None"

text \<open>
  The truth value of \<open>x?.includes(s)\<close>.  On \<open>undefined\<close> and \<open>null\<close> the optional chain
  stops and gives \<open>undefined\<close>; a string is searched for \<open>s\<close>; an array is searched for an
  element equal to the string \<open>s\<close>; any other value has no callable \<open>includes\<close>, and the
  call throws a \<open>TypeError\<close>.
\<close>

fun includes_call :: "jsval option \<Rightarrow> js_string \<Rightarrow> exn + bool" where
  "includes_call None s = Inr False"
| "includes_call (Some JNull) s = Inr False"
| "includes_call (Some (JStr a)) s = Inr (includes_str a s)"
| "includes_call (Some (JArr xs)) s = Inr (JStr s \<in> set xs)"
| "includes_call (Some v) s = Inl TypeError"

definition bind_exn :: "exn + 'a \<Rightarrow> ('a \<Rightarrow> exn + 'b) \<Rightarrow> exn + 'b" where
  "bind_exn m f = (case m of Inl e \<Rightarrow> Inl e | Inr x \<Rightarrow> f x)"

text \<open>
  The callback of \<open>stats.failed\<close>:
  \<open>l.action?.includes('FAILED') || l.status_code === 403 || l.event_id === 4625\<close>,
  evaluated from left to right and stopping at the first true operand.
\<close>

definition is_failed :: "jsval \<Rightarrow> exn + bool" where
  "is_failed l =
     bind_exn (get_prop l (str ''action'')) (\<lambda>a.
     bind_exn (includes_call a (str ''FAILED'')) (\<lambda>b.
       if b then Inr True
       else bind_exn (get_prop l (str ''status_code'')) (\<lambda>sc.
         if sc = Some (JNum 403) then Inr True
         else bind_exn (get_prop l (str ''event_id'')) (\<lambda>ev. Inr (ev = Some (JNum 4625))))))"

text \<open>The callback of \<open>stats.critical\<close>: \<open>l.severity === 'Critical' || l.severity === 'High'\<close>.\<close>

definition is_critical :: "jsval \<Rightarrow> exn + bool" where
  "is_critical l =
     bind_exn (get_prop l (str ''severity'')) (\<lambda>s.
       if s = Some (JStr (str ''Critical'')) then Inr True
       else bind_exn (get_prop l (str ''severity'')) (\<lambda>s'. Inr (s' = Some (JStr (str ''High'')))))"

text \<open>\<open>Array.prototype.filter\<close> with a callback that may throw: the first exception ends it.\<close>

fun filter_exn :: "('a \<Rightarrow> exn + bool) \<Rightarrow> 'a list \<Rightarrow> exn + 'a list" where
  "filter_exn p [] = Inr []"
| "filter_exn p (x # xs) =
     (case p x of
        Inl e \<Rightarrow> Inl e
      | Inr b \<Rightarrow>
          (case filter_exn p xs of
             Inl e \<Rightarrow> Inl e
           | Inr ys \<Rightarrow> Inr (if b then x # ys else ys)))"

text \<open>The fields \<open>total\<close>, \<open>failed\<close> and \<open>critical\<close> of the object \<open>stats\<close>.\<close>

definition stats_total :: "jsval list \<Rightarrow> nat" where
  "stats_total batch = length batch"

definition stats_failed :: "jsval list \<Rightarrow> exn + nat" where
  "stats_failed batch = bind_exn (filter_exn is_failed batch) (\<lambda>fs. Inr (length fs))"

definition stats_critical :: "jsval list \<Rightarrow> exn + nat" where
  "stats_critical batch = bind_exn (filter_exn is_critical batch) (\<lambda>cs. Inr (length cs))"

subsection \<open>The predicates of the specification\<close>

text \<open>
  The value of a field of a record, \<open>None\<close> when the record has no such field (or is not
  an object at all).
\<close>

definition field :: "jsval \<Rightarrow> js_string \<Rightarrow> jsval option" where
  "field l k = (case l of JObj ms \<Rightarrow> map_of (rev ms) k | _ \<Rightarrow> None)"

text \<open>``\<open>action\<close> contains \<open>s\<close>''.\<close>

definition action_contains :: "jsval \<Rightarrow> js_string \<Rightarrow> bool" where
  "action_contains l s =
     (case field l (str ''action'') of Some (JStr a) \<Rightarrow> includes_str a s | _ \<Rightarrow> False)"

text \<open>
  ``(\<open>action\<close> contains \<open>FAILED\<close>) or (\<open>statusCode\<close> = 403) or (\<open>eventId\<close> = 4625)'', as a
  plain disjunction.
\<close>

definition failed_record :: "jsval \<Rightarrow> bool" where
  "failed_record l \<longleftrightarrow>
     action_contains l (str ''FAILED'') \<or>
     field l (str ''status_code'') = Some (JNum 403) \<or>
     field l (str ''event_id'') = Some (JNum 4625)"

text \<open>
  The records on which the callbacks do not throw: objects whose \<open>action\<close>, when they
  have one, is a string.  Every \<open>LogEntry\<close> is one.
\<close>

definition has_text_action :: "jsval \<Rightarrow> bool" where
  "has_text_action l =
     (case l of
        JObj ms \<Rightarrow> (case field l (str ''action'') of None \<Rightarrow> True | Some (JStr a) \<Rightarrow> True | Some _ \<Rightarrow> False)
      | _ \<Rightarrow> False)"

definition scenario_record :: jsval where
  "scenario_record =
     JObj [(str ''ip'', JStr (str ''1.2.3.4'')), (str ''action'', JStr (str ''LOGIN_FAILED'')),
           (str ''status_code'', JNum 200), (str ''event_id'', JNum 4625),
           (str ''severity'', JStr (str ''Info''))]"

definition example_batch :: "jsval list" where
  "example_batch =
     [scenario_record,
      JObj [(str ''ip'', JStr (str ''10.0.0.5'')), (str ''action'', JStr (str ''LOGIN_SUCCESS'')),
            (str ''status_code'', JNum 403), (str ''event_id'', JNum 4624)],
      JObj [(str ''ip'', JStr (str ''10.0.0.5'')), (str ''action'', JStr (str ''FILE_ACCESS'')),
            (str ''status_code'', JNum 200), (str ''severity'', JStr (str ''High''))]]"

section \<open>The chart data\<close>

text \<open>An element of \<open>chartData\<close>: \<open>{ time, count, failed }\<close>.\<close>

record chart_point =
  time :: js_string
  count :: nat
  failed :: nat

text \<open>
  \<open>format(date, 'HH:mm')\<close> of date-fns writes the hours and the minutes of the local time
  with \<open>addLeadingZeros(n, 2)\<close>, the decimal digits of \<open>n\<close> padded with zeros to two
  places, and a colon between them.
\<close>

fun digits_of :: "nat \<Rightarrow> js_string" where
  "digits_of n = (if n < 10 then [of_nat (48 + n)] else digits_of (n div 10) @ [of_nat (48 + n mod 10)])"

definition addLeadingZeros :: "nat \<Rightarrow> nat \<Rightarrow> js_string" where
  "addLeadingZeros n targetLength =
     (let output = digits_of n in replicate (targetLength - length output) 0x0030 @ output)"

definition format_HHmm :: "nat \<times> nat \<Rightarrow> js_string" where
  "format_HHmm hm = addLeadingZeros (fst hm) 2 @ str '':'' @ addLeadingZeros (snd hm) 2"

text \<open>
  \<open>format(new Date(log.timestamp), 'HH:mm')\<close>.  How a value becomes a \<open>Date\<close> and which
  local time that is belong to the runtime and its time zone: \<open>local_time v\<close> is the pair
  of \<open>getHours()\<close> and \<open>getMinutes()\<close> of \<open>new Date(v)\<close>, and \<open>None\<close> when the date is
  invalid, on which \<open>format\<close> throws a \<open>RangeError\<close>.
\<close>

definition time_label :: "(jsval option \<Rightarrow> (nat \<times> nat) option) \<Rightarrow> jsval \<Rightarrow> exn + js_string" where
  "time_label local_time l =
     bind_exn (get_prop l (str ''timestamp'')) (\<lambda>ts.
       case local_time ts of None \<Rightarrow> Inl RangeError | Some hm \<Rightarrow> Inr (format_HHmm hm))"

text \<open>The truth value of \<open>log.action?.includes('FAILED')\<close>.\<close>

definition action_failed :: "jsval \<Rightarrow> exn + bool" where
  "action_failed l = bind_exn (get_prop l (str ''action'')) (\<lambda>a. includes_call a (str ''FAILED''))"

text \<open>
  The body of the callback of \<open>reduce\<close>, once the label \<open>t\<close> and the flag \<open>f\<close> are known:
  the first element of \<open>acc\<close> with that \<open>time\<close> is updated in place, and when there is
  none a new element is pushed at the end.
\<close>

fun add_point :: "js_string \<Rightarrow> bool \<Rightarrow> chart_point list \<Rightarrow> chart_point list" where
  "add_point t f [] = [\<lparr>time = t, count = 1, failed = (if f then 1 else 0)\<rparr>]"
| "add_point t f (d # acc) =
     (if time d = t then d\<lparr>count := count d + 1, failed := failed d + (if f then 1 else 0)\<rparr> # acc
      else d # add_point t f acc)"

definition chart_step ::
  "(jsval option \<Rightarrow> (nat \<times> nat) option) \<Rightarrow> chart_point list \<Rightarrow> jsval \<Rightarrow> exn + chart_point list" where
  "chart_step local_time acc l =
     bind_exn (time_label local_time l) (\<lambda>t.
     bind_exn (action_failed l) (\<lambda>f. Inr (add_point t f acc)))"

text \<open>\<open>Array.prototype.reduce\<close> with a callback that may throw.\<close>

fun reduce_exn :: "('b \<Rightarrow> 'a \<Rightarrow> exn + 'b) \<Rightarrow> 'a list \<Rightarrow> 'b \<Rightarrow> exn + 'b" where
  "reduce_exn f [] acc = Inr acc"
| "reduce_exn f (x # xs) acc = (case f acc x of Inl e \<Rightarrow> Inl e | Inr acc' \<Rightarrow> reduce_exn f xs acc')"

text \<open>\<open>xs.slice(-n)\<close>: the last \<open>n\<close> elements, all of them when there are fewer.\<close>

definition slice_last :: "nat \<Rightarrow> 'a list \<Rightarrow> 'a list" where
  "slice_last n xs = drop (length xs - n) xs"

text \<open>
  \<open>chartData\<close>: the \<open>reduce\<close>, then \<open>sort((a, b) => a.time.localeCompare(b.time))\<close>,
  then \<open>slice(-20)\<close>.  The labels are two digits, a colon and two digits, on which
  \<open>localeCompare\<close> is the lexicographic order of the code units; \<open>sort\<close> is stable.
\<close>

definition chartData :: "(jsval option \<Rightarrow> (nat \<times> nat) option) \<Rightarrow> jsval list \<Rightarrow> exn + chart_point list" where
  "chartData local_time batch =
     bind_exn (reduce_exn (chart_step local_time) batch [])
       (\<lambda>acc. Inr (slice_last 20 (sort_key time acc)))"

subsection \<open>The notions of the specification\<close>

text \<open>The label of a record, and the records on which the callback does not throw.\<close>

definition label_of :: "(jsval option \<Rightarrow> (nat \<times> nat) option) \<Rightarrow> jsval \<Rightarrow> js_string" where
  "label_of local_time l =
     (case local_time (field l (str ''timestamp'')) of Some hm \<Rightarrow> format_HHmm hm | None \<Rightarrow> [])"

definition chartable :: "(jsval option \<Rightarrow> (nat \<times> nat) option) \<Rightarrow> jsval \<Rightarrow> bool" where
  "chartable local_time l \<longleftrightarrow> has_text_action l \<and> local_time (field l (str ''timestamp'')) \<noteq> None"

text \<open>The callback of the \<open>reduce\<close> on such a record.\<close>

definition pure_step :: "(jsval option \<Rightarrow> (nat \<times> nat) option) \<Rightarrow> chart_point list \<Rightarrow> jsval \<Rightarrow> chart_point list" where
  "pure_step lt acc l = add_point (label_of lt l) (action_contains l (str ''FAILED'')) acc"

text \<open>
  For the examples: the local time of a runtime in the UTC zone, on timestamps in the
  format of \<open>toISOString\<close>.
\<close>

definition utc_of_iso :: "jsval option \<Rightarrow> (nat \<times> nat) option" where
  "utc_of_iso v =
     (case v of
        Some (JStr s) \<Rightarrow>
          if length s = 24 \<and> list_all is_digit [s ! 11, s ! 12, s ! 14, s ! 15]
          then Some (digits_val [s ! 11, s ! 12], digits_val [s ! 14, s ! 15])
          else None
      | _ \<Rightarrow> None)"

definition entry_at :: "string \<Rightarrow> string \<Rightarrow> int \<Rightarrow> jsval" where
  "entry_at ts act sc = JObj [(str ''timestamp'', JStr (str ts)), (str ''ip'', JStr (str ''10.0.0.5'')),
     (str ''action'', JStr (str act)), (str ''status_code'', JNum (of_int sc))]"

definition timeline_batch :: "jsval list" where
  "timeline_batch =
     [entry_at ''2026-01-01T10:05:00.000Z'' ''LOGIN_FAILED'' 200,
      entry_at ''2026-01-01T09:59:10.000Z'' ''LOGIN_SUCCESS'' 403,
      entry_at ''2026-01-01T10:05:59.000Z'' ''FILE_ACCESS'' 200]"

definition minute_entry :: "nat \<Rightarrow> jsval" where
  "minute_entry i =
     JObj [(str ''timestamp'', JStr (str ''2026-01-01T10:'' @ addLeadingZeros i 2 @ str '':00.000Z'')),
           (str ''ip'', JStr (str ''10.0.0.5'')), (str ''action'', JStr (str ''FILE_ACCESS''))]"

definition minutes_batch :: "jsval list" where
  "minutes_batch = map minute_entry (rev [0..<21])"


section \<open>The chat handler\<close>

text \<open>
  The \<open>context\<close> of \<open>handleChatSubmit\<close>.  \<open>JSON.stringify\<close> and, below,
  \<open>String.prototype.toLowerCase\<close> belong to the runtime and are parameters.
\<close>

definition chat_context :: "(jsval list \<Rightarrow> js_string) \<Rightarrow> jsval list \<Rightarrow> js_string" where
  "chat_context JSON_stringify batch =
     (if length batch > 0
      then str ''Current Logs Context: '' @ JSON_stringify (take 50 batch) @ str ''\<newline>\<newline>''
      else [])"

text \<open>
  What \<open>handleChatSubmit\<close> does with the input: nothing when it is blank, the demo when
  its lower-case form contains \<open>demo\<close>, and otherwise a call of \<open>analyzeLogsWithGemini\<close>
  on \<open>context + userMsg\<close>.
\<close>

datatype chat_outcome = Ignored | RunDemo | Ask js_string

definition handleChatSubmit ::
  "(jsval list \<Rightarrow> js_string) \<Rightarrow> (js_string \<Rightarrow> js_string) \<Rightarrow> jsval list \<Rightarrow> js_string \<Rightarrow> chat_outcome" where
  "handleChatSubmit JSON_stringify toLowerCase batch chatInput =
     (if trim chatInput = [] then Ignored
      else if includes_str (toLowerCase chatInput) (str ''demo'') then RunDemo
      else Ask (chat_context JSON_stringify batch @ chatInput))"

section \<open>The generator of demo logs\<close>

text \<open>
  The interface \<open>LogEntry\<close>.  A timestamp is kept as the instant it denotes, in
  milliseconds since the epoch: \<open>toISOString\<close> and \<open>new Date(string).getTime()\<close> are
  inverse to each other on the valid time values.
\<close>

datatype event_id = EventStr js_string | EventNum int

record LogEntry =
  timestamp :: int
  event_id :: "event_id option"
  user :: "js_string option"
  ip :: js_string
  action :: js_string
  status_code :: "int option"
  user_agent :: "js_string option"
  severity :: "js_string option"
  message :: "js_string option"

definition ips :: "js_string list" where
  "ips = [str ''192.168.1.10'', str ''10.0.0.5'', str ''203.0.113.5'', str ''45.33.22.11'', str ''172.16.0.44'']"

definition users :: "js_string list" where
  "users = [str ''admin'', str ''root'', str ''jdoe'', str ''guest'', str ''service_account'']"

definition actions :: "js_string list" where
  "actions = [str ''LOGIN_SUCCESS'', str ''LOGIN_FAILED'', str ''FILE_ACCESS'', str ''SUDO_EXEC'', str ''PROCESS_START'']"

text \<open>
  \<open>Math.random()\<close> returns a number in \<open>[0, 1)\<close>: the \<open>k\<close>-th call returns \<open>rnd k\<close>,
  reduced to its fractional part so that every \<open>rnd\<close> is a source (a value already in
  \<open>[0, 1)\<close> is unchanged).  The arithmetic on these numbers is exact here; the runtime
  rounds to IEEE-754 doubles.
\<close>

definition random :: "(nat \<Rightarrow> rat) \<Rightarrow> nat \<Rightarrow> rat" where
  "random rnd k = rnd k - of_int \<lfloor>rnd k\<rfloor>"

text \<open>\<open>new Date(x)\<close> truncates \<open>x\<close> towards zero.\<close>

definition time_clip :: "rat \<Rightarrow> int" where
  "time_clip x = (if 0 \<le> x then \<lfloor>x\<rfloor> else \<lceil>x\<rceil>)"

text \<open>The instant of \<open>new Date(now.getTime() - Math.random() * 3600000)\<close>.\<close>

definition slot_time :: "int \<Rightarrow> rat \<Rightarrow> int" where
  "slot_time now r = time_clip (of_int now - r * 3600000)"

text \<open>\<open>pool[Math.floor(Math.random() * pool.length)]\<close>.\<close>

definition pick :: "js_string list \<Rightarrow> rat \<Rightarrow> js_string" where
  "pick pool r = pool ! nat \<lfloor>r * of_nat (length pool)\<rfloor>"

text \<open>The inner loop \<open>for (let j = 0; j < 8; j++) logs.push({...})\<close>, from \<open>j\<close> on.\<close>

function burst_loop :: "int \<Rightarrow> nat \<Rightarrow> LogEntry list \<Rightarrow> LogEntry list" where
  "burst_loop t j acc =
     (if j < 8 then
        burst_loop t (j + 1)
          (acc @ [\<lparr>timestamp = t + int j * 1000, event_id = Some (EventNum 4625), user = Some (users ! 0),
                   ip = ips ! 2, action = str ''LOGIN_FAILED'', status_code = None, user_agent = None,
                   severity = Some (str ''High''), message = None\<rparr>])
      else acc)"
  by pat_completeness auto
termination
  by (relation "measure (\<lambda>(t, j, acc). 8 - j)") auto

declare burst_loop.simps [simp del]

text \<open>
  The entry of an ordinary slot.  The slot has drawn \<open>rnd k\<close> for the timestamp and
  \<open>rnd (k + 1)\<close> for \<open>isAttack\<close>; the object literal draws five more, in the order of
  its fields \<open>ip\<close>, \<open>user\<close>, \<open>action\<close>, \<open>event_id\<close>, \<open>status_code\<close>.
\<close>

definition normal_entry :: "(nat \<Rightarrow> rat) \<Rightarrow> nat \<Rightarrow> int \<Rightarrow> LogEntry" where
  "normal_entry rnd k t =
     \<lparr>timestamp = t,
      event_id = Some (EventNum (if random rnd (k + 5) > 1 / 2 then 4624 else 4625)),
      user = Some (pick users (random rnd (k + 3))),
      ip = pick ips (random rnd (k + 2)),
      action = pick actions (random rnd (k + 4)),
      status_code = Some (if random rnd (k + 6) > 4 / 5 then 403 else 200),
      user_agent = None, severity = Some (str ''Info''), message = None\<rparr>"

text \<open>
  The loop \<open>for (let i = 0; i < count; i++)\<close>, from the slot \<open>i\<close> on, with \<open>k\<close> calls of
  \<open>Math.random()\<close> made so far and \<open>acc\<close> the array \<open>logs\<close>; \<open>cnt\<close> is the parameter
  \<open>count\<close>, an integer.  A burst adds \<open>7\<close> to \<open>i\<close> before the increment of the loop.
\<close>

function gen_loop :: "int \<Rightarrow> (nat \<Rightarrow> rat) \<Rightarrow> int \<Rightarrow> int \<Rightarrow> nat \<Rightarrow> LogEntry list \<Rightarrow> LogEntry list" where
  "gen_loop now rnd cnt i k acc =
     (if i < cnt then
        (let t = slot_time now (random rnd k);
             isAttack = random rnd (k + 1) < 1 / 20
         in if isAttack then gen_loop now rnd cnt (i + 7 + 1) (k + 2) (burst_loop t 0 acc)
            else gen_loop now rnd cnt (i + 1) (k + 7) (acc @ [normal_entry rnd k t]))
      else acc)"
  by pat_completeness auto
termination
  by (relation "measure (\<lambda>(now, rnd, cnt, i, k, acc). nat (cnt - i))") auto

declare gen_loop.simps [simp del]

text \<open>
  \<open>generateDemoLogs(count)\<close> at the instant \<open>now\<close>: the loop, then the stable sort by
  \<open>new Date(a.timestamp).getTime() - new Date(b.timestamp).getTime()\<close>.
\<close>

definition generateDemoLogs :: "int \<Rightarrow> (nat \<Rightarrow> rat) \<Rightarrow> int \<Rightarrow> LogEntry list" where
  "generateDemoLogs now rnd cnt = sort_key timestamp (gen_loop now rnd cnt 0 0 [])"

text \<open>
  The states \<open>(i, k, logs)\<close> in which a run of \<open>generateDemoLogs(count)\<close> reaches the test
  of its loop.
\<close>

inductive gen_reaches :: "int \<Rightarrow> (nat \<Rightarrow> rat) \<Rightarrow> int \<Rightarrow> int \<times> nat \<times> LogEntry list \<Rightarrow> bool"
  for now :: int and rnd :: "nat \<Rightarrow> rat" and cnt :: int
where
  start: "gen_reaches now rnd cnt (0, 0, [])"
| attack: "gen_reaches now rnd cnt (i, k, acc) \<Longrightarrow> i < cnt \<Longrightarrow> random rnd (k + 1) < 1 / 20 \<Longrightarrow>
     gen_reaches now rnd cnt (i + 7 + 1, k + 2, burst_loop (slot_time now (random rnd k)) 0 acc)"
| normal: "gen_reaches now rnd cnt (i, k, acc) \<Longrightarrow> i < cnt \<Longrightarrow> \<not> random rnd (k + 1) < 1 / 20 \<Longrightarrow>
     gen_reaches now rnd cnt (i + 1, k + 7, acc @ [normal_entry rnd k (slot_time now (random rnd k))])"

text \<open>
  For the examples: the source on which the slots \<open>0\<close> to \<open>n - 1\<close> are ordinary and the
  slot \<open>n\<close> is an attack; the entry number \<open>j\<close> of a burst that starts at \<open>t\<close>; a
  stand-in for \<open>JSON.stringify\<close> that shows how many records it was given; and
  \<open>toLowerCase\<close> on ASCII.
\<close>

definition attack_last :: "nat \<Rightarrow> nat \<Rightarrow> rat" where
  "attack_last n k = (if k = 7 * n + 1 then 0 else 1 / 2)"


definition burst_entry :: "int \<Rightarrow> nat \<Rightarrow> LogEntry" where
  "burst_entry t j =
     \<lparr>timestamp = t + int j * 1000, event_id = Some (EventNum 4625), user = Some (str ''admin''),
      ip = str ''203.0.113.5'', action = str ''LOGIN_FAILED'', status_code = None, user_agent = None,
      severity = Some (str ''High''), message = None\<rparr>"

definition example_stringify :: "jsval list \<Rightarrow> js_string" where
  "example_stringify xs = str ''<'' @ map (\<lambda>x. 0x002E) xs @ str ''>''"

definition ascii_lower :: "js_string \<Rightarrow> js_string" where
  "ascii_lower s = map (\<lambda>c. if 0x0041 \<le> c \<and> c \<le> 0x005A then c + 0x0020 else c) s"

section \<open>Properties\<close>

subsection \<open>Facts about the parser\<close>

text \<open>
  Every parser consumes input.  In particular the tests \<open>length r < length cs\<close> in
  \<open>parse_elements\<close> and \<open>parse_members\<close> never fail on a result of \<open>parse_value\<close>.
\<close>

lemma parse_int_part_shorter:
  "parse_int_part cs = Some (n, r) \<Longrightarrow> length r < length cs"
  using length_dropWhile_le [of is_digit "tl cs"]
  by (auto simp: parse_int_part_def split: list.splits if_splits)

lemma parse_frac_shorter:
  "parse_frac cs = Some (f, r) \<Longrightarrow> length r \<le> length cs"
  using length_dropWhile_le [of is_digit "tl cs"]
  by (auto simp: parse_frac_def Let_def split: list.splits if_splits)

lemma parse_exp_digits_shorter:
  "parse_exp_digits cs = Some (n, r) \<Longrightarrow> length r \<le> length cs"
  using length_dropWhile_le [of is_digit cs]
  by (auto simp: parse_exp_digits_def Let_def split: if_splits)

lemma parse_exp_shorter:
  "parse_exp cs = Some (e, r) \<Longrightarrow> length r \<le> length cs"
  by (auto simp: parse_exp_def split: list.splits if_splits dest!: parse_exp_digits_shorter)

lemma parse_unsigned_shorter:
  "parse_unsigned cs = Some (q, r) \<Longrightarrow> length r < length cs"
  by (auto simp: parse_unsigned_def split: option.splits
      dest!: parse_int_part_shorter parse_frac_shorter parse_exp_shorter)

lemma parse_number_shorter:
  "parse_number cs = Some (q, r) \<Longrightarrow> length r < length cs"
  by (auto simp: parse_number_def split: list.splits if_splits dest!: parse_unsigned_shorter)

lemma parse_elements_shorter:
  "parse_elements cs = Some (vs, r) \<Longrightarrow> length r < length cs"
proof (induction cs arbitrary: vs r rule: length_induct)
  case (1 cs)
  from "1.prems" obtain v r0 where v: "parse_value cs = Some (v, r0)" and g: "length r0 < length cs"
    by (subst (asm) parse_elements.simps) (auto split: option.splits if_splits)
  from "1.prems" v g obtain d ds where s: "skip_ws r0 = d # ds"
    by (subst (asm) parse_elements.simps) (auto split: list.splits)
  have ds: "length ds < length cs"
    using skip_ws_Cons_length [OF s] g by simp
  show ?case
  proof (cases "d = 0x005D")
    case True
    with "1.prems" v g s have "r = ds"
      by (subst (asm) parse_elements.simps) simp
    with ds show ?thesis by simp
  next
    case False
    with "1.prems" v g s obtain vs' where "parse_elements (skip_ws ds) = Some (vs', r)"
      by (subst (asm) parse_elements.simps) (auto split: if_splits)
    moreover have "length (skip_ws ds) < length cs"
      using skip_ws_length [of ds] ds by simp
    ultimately have "length r < length (skip_ws ds)"
      using "1.IH" by blast
    with \<open>length (skip_ws ds) < length cs\<close> show ?thesis by simp
  qed
qed

lemma parse_members_shorter:
  "parse_members cs = Some (ms, r) \<Longrightarrow> length r < length cs"
proof (induction cs arbitrary: ms r rule: length_induct)
  case (1 cs)
  from "1.prems" obtain cs' where cs: "cs = 0x0022 # cs'"
    by (subst (asm) parse_members.simps) (auto split: list.splits if_splits)
  from "1.prems" cs obtain k r0 where k: "parse_chars cs' = Some (k, r0)"
    by (subst (asm) parse_members.simps) (auto split: option.splits)
  from "1.prems" cs k obtain r1 where c: "skip_ws r0 = 0x003A # r1"
    by (subst (asm) parse_members.simps) (auto split: list.splits if_splits)
  from "1.prems" cs k c obtain v r2 where v: "parse_value (skip_ws r1) = Some (v, r2)"
    and g: "length r2 < length cs"
    by (subst (asm) parse_members.simps) (auto split: option.splits if_splits)
  from "1.prems" cs k c v g obtain d ds where s: "skip_ws r2 = d # ds"
    by (subst (asm) parse_members.simps) (auto split: list.splits)
  have ds: "length ds < length cs"
    using skip_ws_Cons_length [OF s] g by simp
  show ?case
  proof (cases "d = 0x007D")
    case True
    with "1.prems" cs k c v g s have "r = ds"
      by (subst (asm) parse_members.simps) simp
    with ds show ?thesis by simp
  next
    case False
    with "1.prems" cs k c v g s obtain ms' where "parse_members (skip_ws ds) = Some (ms', r)"
      by (subst (asm) parse_members.simps) (auto split: if_splits)
    moreover have "length (skip_ws ds) < length cs"
      using skip_ws_length [of ds] ds by simp
    ultimately have "length r < length (skip_ws ds)"
      using "1.IH" by blast
    with \<open>length (skip_ws ds) < length cs\<close> show ?thesis by simp
  qed
qed

lemma startsWith_length:
  assumes "startsWith cs p"
  shows "length p \<le> length cs"
proof -
  from assms have "length (take (length p) cs) = length p"
    by (simp add: startsWith_def)
  then show ?thesis by simp
qed

lemma parse_value_shorter:
  assumes "parse_value cs = Some (v, r)"
  shows "length r < length cs"
proof -
  from assms obtain c cs' where cs: "cs = c # cs'"
    by (subst (asm) parse_value.simps) (auto split: list.splits)
  consider (arr) "c = 0x005B" | (obj) "c \<noteq> 0x005B" "c = 0x007B"
    | (string) "c \<noteq> 0x005B" "c \<noteq> 0x007B" "c = 0x0022"
    | (other) "c \<noteq> 0x005B" "c \<noteq> 0x007B" "c \<noteq> 0x0022"
    by blast
  then show ?thesis
  proof cases
    case arr
    from assms cs arr obtain d ds where s: "skip_ws cs' = d # ds"
      by (subst (asm) parse_value.simps) (auto split: list.splits)
    show ?thesis
    proof (cases "d = 0x005D")
      case True
      with assms cs arr s have "r = ds"
        by (subst (asm) parse_value.simps) simp
      with skip_ws_Cons_length [OF s] cs show ?thesis by simp
    next
      case False
      with assms cs arr s obtain vs where "parse_elements (skip_ws cs') = Some (vs, r)"
        by (subst (asm) parse_value.simps) auto
      from parse_elements_shorter [OF this] skip_ws_length [of cs'] cs show ?thesis by simp
    qed
  next
    case obj
    from assms cs obj obtain d ds where s: "skip_ws cs' = d # ds"
      by (subst (asm) parse_value.simps) (auto split: list.splits)
    show ?thesis
    proof (cases "d = 0x007D")
      case True
      with assms cs obj s have "r = ds"
        by (subst (asm) parse_value.simps) simp
      with skip_ws_Cons_length [OF s] cs show ?thesis by simp
    next
      case False
      with assms cs obj s obtain ms where "parse_members (skip_ws cs') = Some (ms, r)"
        by (subst (asm) parse_value.simps) auto
      from parse_members_shorter [OF this] skip_ws_length [of cs'] cs show ?thesis by simp
    qed
  next
    case string
    with assms cs obtain s where "parse_chars cs' = Some (s, r)"
      by (subst (asm) parse_value.simps) auto
    from parse_chars_shorter [OF this] cs show ?thesis by simp
  next
    case other
    from other assms cs consider "startsWith cs (str ''true'')" "r = drop 4 cs"
      | "startsWith cs (str ''false'')" "r = drop 5 cs"
      | "startsWith cs (str ''null'')" "r = drop 4 cs"
      | q where "parse_number cs = Some (q, r)"
      by (subst (asm) parse_value.simps) (auto split: if_splits)
    then show ?thesis
    proof cases
      case 1
      with startsWith_length [OF 1(1)] show ?thesis by (simp add: str_def)
    next
      case 2
      with startsWith_length [OF 2(1)] show ?thesis by (simp add: str_def)
    next
      case 3
      with startsWith_length [OF 3(1)] show ?thesis by (simp add: str_def)
    next
      case 4
      then show ?thesis by (rule parse_number_shorter)
    qed
  qed
qed


lemma json_ws_is_js_whitespace: "is_json_ws c \<Longrightarrow> is_js_whitespace c"
  by (auto simp: is_json_ws_def is_js_whitespace_def)

lemma dropWhile_weaker:
  assumes "\<And>x. P x \<Longrightarrow> Q x"
  shows "dropWhile Q (dropWhile P xs) = dropWhile Q xs"
  using assms by (induction xs) auto

lemma trim_starts:
  assumes "skip_ws text = c # cs" and "\<not> is_js_whitespace c"
  shows "startsWith (trim text) [c]"
proof -
  have "dropWhile is_js_whitespace text = dropWhile is_js_whitespace (skip_ws text)"
    unfolding skip_ws_def by (rule dropWhile_weaker [symmetric]) (rule json_ws_is_js_whitespace)
  with assms have d: "dropWhile is_js_whitespace text = c # cs" by simp
  have "dropWhile is_js_whitespace (rev cs @ [c]) =
          (if \<forall>x\<in>set (rev cs). is_js_whitespace x then [c] else dropWhile is_js_whitespace (rev cs) @ [c])"
    using assms(2) by (simp add: dropWhile_append)
  then obtain ys where "dropWhile is_js_whitespace (rev (c # cs)) = ys @ [c]"
    by (cases "\<forall>x\<in>set (rev cs). is_js_whitespace x") auto
  with d show ?thesis
    by (simp add: trim_def startsWith_def)
qed

lemma parse_value_JArr:
  assumes "parse_value cs = Some (JArr xs, r)"
  shows "\<exists>cs'. cs = 0x005B # cs'"
  using assms
  by (subst (asm) parse_value.simps) (auto split: list.splits if_splits)

text \<open>A text that parses as an array starts, once trimmed, with the opening bracket.\<close>

lemma JSON_parse_array_looks_structured:
  assumes "JSON_parse text = Some (JArr xs)"
  shows "looks_structured text"
proof -
  from assms obtain r where "parse_value (skip_ws text) = Some (JArr xs, r)"
    by (auto simp: JSON_parse_def split: option.splits if_splits)
  then obtain cs' where "skip_ws text = 0x005B # cs'"
    using parse_value_JArr by blast
  then have "startsWith (trim text) [0x005B]"
    by (rule trim_starts) (simp add: is_js_whitespace_def)
  then show ?thesis
    by (simp add: looks_structured_def str_def)
qed

lemma looks_structured_bracket: "looks_structured (str ''['')"
  by code_simp

lemma JSON_parse_bracket: "JSON_parse (str ''['') = None"
  by code_simp

lemma JSON_parse_empty_object_array: "JSON_parse (str ''[{}]'') = Some (JArr [JObj []])"
  by code_simp

lemma JSON_parse_record_array:
  \<open>JSON_parse (str ''[{"ip": "203.0.113.5", "action": "LOGIN_FAILED", "status_code": 401}, 7]'') =
     Some (JArr [JObj [(str ''ip'', JStr (str ''203.0.113.5'')), (str ''action'', JStr (str ''LOGIN_FAILED'')),
                       (str ''status_code'', JNum 401)], JNum 7])\<close>
  by code_simp

subsection \<open>The truncation\<close>

text \<open>
  C3.  The payload is \<open>processedLogs\<close> followed by \<open>truncationNote\<close>, and the flag is the
  test \<open>logs.length > MAX_CHARS\<close> of the source.  Up to 500000 code units the text passes
  unchanged and the flag is false; beyond, the payload is the prefix of exactly 500000
  code units followed by the fixed note, and the flag is true.
\<close>

theorem prepare_truncates:
  "(length s \<le> 500000 \<longrightarrow>
      (processedLogs s @ truncationNote s, MAX_CHARS < length s) = (s, False)) \<and>
   (500000 < length s \<longrightarrow>
      (processedLogs s @ truncationNote s, MAX_CHARS < length s) =
        (take 500000 s @ str ''\<newline>\<newline>[NOTE: Logs were truncated for analysis due to size constraints. Showing first 500k characters.]'', True)
      \<and> length (take 500000 s) = 500000)"
  by (simp add: processedLogs_def truncationNote_def MAX_CHARS_def)

theorem prepare_truncates_witness:
  "length (str ''abc'') \<le> 500000 \<and>
   (processedLogs (str ''abc'') @ truncationNote (str ''abc''), MAX_CHARS < length (str ''abc'')) = (str ''abc'', False) \<and>
   500000 < length (replicate 500001 (0x61 :: code_unit)) \<and>
   processedLogs (replicate 500001 (0x61 :: code_unit)) @ truncationNote (replicate 500001 0x61)
     = replicate 500000 0x61 @ str ''\<newline>\<newline>[NOTE: Logs were truncated for analysis due to size constraints. Showing first 500k characters.]''"
  using prepare_truncates [of "str ''abc''"] prepare_truncates [of "replicate 500001 (0x61 :: code_unit)"]
  by (simp add: str_def)

subsection \<open>The upload handler\<close>

text \<open>
  C7.  Whatever the outcome of the normalisation, the handler hands the text it read,
  unmodified, to \<open>processLogs\<close>, exactly once: after the \<open>try\<close> body when it completes
  (structured or raw-text branch), and from the \<open>catch\<close> when \<open>JSON.parse\<close> threw.
  What \<open>analyzeLogsWithGemini\<close> then sends depends on that text alone, and holds all of
  it when it has at most \<open>MAX_CHARS\<close> code units.
\<close>

theorem upload_always_forwards_text:
  "requests (onload clock text st) = requests st @ [text] \<and>
   (\<forall>st'. try_block clock text st = Inr st' \<longrightarrow> requests st' = requests st @ [text]) \<and>
   (\<forall>e. try_block clock text st = Inl e \<longrightarrow> onload clock text st = processLogs text st) \<and>
   (length text \<le> MAX_CHARS \<longrightarrow> contents_text text = str ''Analyze these logs:\<newline>'' @ text)"
  by (auto simp: onload_def try_block_def processLogs_def setLogs_def contents_text_def
      processedLogs_def truncationNote_def split: option.splits)

theorem upload_always_forwards_text_witness:
  "requests (onload example_clock (str ''['') empty_state) = [str ''['']  \<and>
   requests (onload example_clock (str ''[{}]'') empty_state) = [str ''[{}]''] \<and>
   requests (onload example_clock (str ''a b'') empty_state) = [str ''a b''] \<and>
   try_block example_clock (str ''['') empty_state = Inl SyntaxError \<and>
   length (str ''['') \<le> MAX_CHARS \<and>
   contents_text (str ''['') = str ''Analyze these logs:\<newline>'' @ str ''[''"
proof -
  have a: "try_block example_clock (str ''['') empty_state = Inl SyntaxError"
    using looks_structured_bracket JSON_parse_bracket by (simp add: try_block_def)
  have b: "length (str ''['') \<le> MAX_CHARS"
    by (simp add: str_def MAX_CHARS_def)
  have e: "requests empty_state = []"
    by (simp add: empty_state_def)
  from upload_always_forwards_text [of example_clock "str ''[''" empty_state]
  have r1: "requests (onload example_clock (str ''['') empty_state) = [str ''['']"
    and c: "contents_text (str ''['') = str ''Analyze these logs:\<newline>'' @ str ''[''"
    using b e by simp_all
  from upload_always_forwards_text [of example_clock "str ''[{}]''" empty_state]
  have r2: "requests (onload example_clock (str ''[{}]'') empty_state) = [str ''[{}]'']"
    using e by simp
  from upload_always_forwards_text [of example_clock "str ''a b''" empty_state]
  have r3: "requests (onload example_clock (str ''a b'') empty_state) = [str ''a b'']"
    using e by simp
  from r1 r2 r3 a b c show ?thesis by blast
qed

text \<open>
  C10.  When the trimmed input starts with \<open>[\<close> or \<open>{\<close> and \<open>JSON.parse\<close> throws, the
  handler changes nothing but the list of requests: the batch held before is still there
  (neither cleared nor replaced by raw-text records), and the text has been handed to
  \<open>processLogs\<close>.
\<close>

theorem upload_parse_failure_frame:
  assumes "looks_structured text" and "JSON_parse text = None"
  shows "onload clock text st = st\<lparr>requests := requests st @ [text]\<rparr> \<and>
         logs (onload clock text st) = logs st \<and>
         requests (onload clock text st) = requests st @ [text]"
  using assms by (simp add: onload_def try_block_def processLogs_def)

theorem upload_parse_failure_frame_witness:
  "looks_structured (str ''['') \<and> JSON_parse (str ''['') = None \<and>
   logs (onload example_clock (str ''['') loaded_state) = logs loaded_state \<and>
   logs loaded_state \<noteq> [] \<and>
   logs loaded_state \<noteq> parsedLogs example_clock (str ''['') \<and>
   requests (onload example_clock (str ''['') loaded_state) = [str ''boot'', str ''['']"
proof -
  have "logs loaded_state \<noteq> parsedLogs example_clock (str ''['')"
    by code_simp
  then show ?thesis
    using upload_parse_failure_frame [OF looks_structured_bracket JSON_parse_bracket, of example_clock loaded_state]
      looks_structured_bracket JSON_parse_bracket
    by (simp add: loaded_state_def)
qed

text \<open>
  C1, as amended.  When the trimmed input starts with \<open>[\<close> or \<open>{\<close> and \<open>JSON.parse\<close>
  throws, the handler does not fall through to the raw-text branch: the \<open>SyntaxError\<close>
  leaves the \<open>try\<close>, is caught, and the batch stays as it was.  The raw-text branch is
  taken when the trimmed input starts with neither: then the batch is one record for each
  non-blank line, with \<open>message\<close> the line, \<open>timestamp\<close> the clock at that line,
  \<open>ip\<close> \<open>Unknown\<close> and \<open>action\<close> \<open>RAW_LOG\<close>.  No exception but the \<open>SyntaxError\<close>
  of \<open>JSON.parse\<close> leaves the \<open>try\<close>, and the \<open>catch\<close> handles it: the handler never
  throws.
\<close>

theorem upload_parse_failure_no_raw_mode:
  "(looks_structured text \<and> JSON_parse text = None \<longrightarrow>
      try_block clock text st = Inl SyntaxError \<and> logs (onload clock text st) = logs st) \<and>
   (\<not> looks_structured text \<longrightarrow>
      logs (onload clock text st) = parsedLogs clock text \<and>
      length (parsedLogs clock text) = length (lines_of text) \<and>
      (\<forall>i<length (lines_of text). parsedLogs clock text ! i = raw_entry (clock i) (lines_of text ! i))) \<and>
   (try_block clock text st = Inl SyntaxError \<or> (\<exists>st'. try_block clock text st = Inr st')) \<and>
   get_prop (raw_entry now line) (str ''message'') = Inr (Some (JStr line)) \<and>
   get_prop (raw_entry now line) (str ''timestamp'') = Inr (Some (JStr now)) \<and>
   get_prop (raw_entry now line) (str ''ip'') = Inr (Some (JStr (str ''Unknown''))) \<and>
   get_prop (raw_entry now line) (str ''action'') = Inr (Some (JStr (str ''RAW_LOG'')))"
proof -
  have "parsedLogs clock text ! i = raw_entry (clock i) (lines_of text ! i)" if "i < length (lines_of text)" for i
    using that by (simp add: parsedLogs_def nth_enumerate_eq)
  moreover have "get_prop (raw_entry now line) (str ''message'') = Inr (Some (JStr line))"
    "get_prop (raw_entry now line) (str ''timestamp'') = Inr (Some (JStr now))"
    "get_prop (raw_entry now line) (str ''ip'') = Inr (Some (JStr (str ''Unknown'')))"
    "get_prop (raw_entry now line) (str ''action'') = Inr (Some (JStr (str ''RAW_LOG'')))"
    by (simp_all add: raw_entry_def str_def)
  moreover have "try_block clock text st = Inl SyntaxError \<or> (\<exists>st'. try_block clock text st = Inr st')"
    by (simp add: try_block_def split: option.splits)
  ultimately show ?thesis
    by (simp add: onload_def try_block_def processLogs_def setLogs_def parsedLogs_def)
qed

theorem upload_parse_failure_no_raw_mode_witness:
  "looks_structured (str ''['') \<and> JSON_parse (str ''['') = None \<and>
   try_block example_clock (str ''['') loaded_state = Inl SyntaxError \<and>
   logs (onload example_clock (str ''['') loaded_state) = logs loaded_state \<and>
   \<not> looks_structured (str ''a b'') \<and>
   logs (onload example_clock (str ''a b'') loaded_state) = [raw_entry (example_clock 0) (str ''a b'')]"
proof -
  have a: "\<not> looks_structured (str ''a b'')" by code_simp
  have b: "parsedLogs example_clock (str ''a b'') = [raw_entry (example_clock 0) (str ''a b'')]" by code_simp
  from upload_parse_failure_no_raw_mode [of "str ''[''" example_clock loaded_state]
    upload_parse_failure_no_raw_mode [of "str ''a b''" example_clock loaded_state]
    a b looks_structured_bracket JSON_parse_bracket
  show ?thesis by simp
qed

text \<open>
  C1 as stated fails on the input \<open>[\<close>: its trimmed form starts with \<open>[\<close>, it does not
  parse, it has one non-blank line, and the batch after the upload is empty instead of
  holding the record of that line.
\<close>

theorem raw_fallback_counterexample:
  "looks_structured (str ''['') \<and> JSON_parse (str ''['') = None \<and>
   lines_of (str ''['') = [str ''['']  \<and>
   parsedLogs example_clock (str ''['') = [raw_entry (example_clock 0) (str ''['')] \<and>
   logs (onload example_clock (str ''['') empty_state) = []"
  by code_simp

text \<open>
  C2, as amended.  When the input parses as a JSON array, the batch is that array: the
  same length, and each element as parsed.  Nothing is validated or filled in.
\<close>

theorem upload_array_kept_as_parsed:
  assumes "JSON_parse text = Some (JArr xs)"
  shows "logs (onload clock text st) = xs \<and> length (logs (onload clock text st)) = length xs"
  using assms JSON_parse_array_looks_structured [OF assms]
  by (simp add: onload_def try_block_def processLogs_def setLogs_def)

theorem upload_array_kept_as_parsed_witness:
  \<open>JSON_parse (str ''[{}]'') = Some (JArr [JObj []]) \<and>
   logs (onload example_clock (str ''[{}]'') empty_state) = [JObj []] \<and>
   logs (onload example_clock
      (str ''[{"ip": "203.0.113.5", "action": "LOGIN_FAILED", "status_code": 401}, 7]'') loaded_state) =
     [JObj [(str ''ip'', JStr (str ''203.0.113.5'')), (str ''action'', JStr (str ''LOGIN_FAILED'')),
            (str ''status_code'', JNum 401)], JNum 7]\<close>
  using upload_array_kept_as_parsed [OF JSON_parse_empty_object_array, of example_clock empty_state]
    upload_array_kept_as_parsed [OF JSON_parse_record_array, of example_clock loaded_state]
    JSON_parse_empty_object_array by simp

text \<open>
  C2 as stated fails on the input \<open>[{}]\<close>: it parses as an array of one object, and the
  record of the batch has no \<open>ip\<close>, no \<open>action\<close> and no \<open>timestamp\<close>.
\<close>

theorem array_fallback_counterexample:
  "JSON_parse (str ''[{}]'') = Some (JArr [JObj []]) \<and>
   logs (onload example_clock (str ''[{}]'') empty_state) = [JObj []] \<and>
   get_prop (JObj []) (str ''ip'') = Inr None \<and>
   get_prop (JObj []) (str ''action'') = Inr None \<and>
   get_prop (JObj []) (str ''timestamp'') = Inr None"
  by code_simp

subsection \<open>The statistics\<close>

lemma is_failed_text_action:
  assumes "has_text_action l"
  shows "is_failed l = Inr (failed_record l)"
proof -
  from assms obtain ms where l: "l = JObj ms"
    by (auto simp: has_text_action_def split: jsval.splits)
  from assms l consider "map_of (rev ms) (str ''action'') = None"
    | a where "map_of (rev ms) (str ''action'') = Some (JStr a)"
    by (auto simp: has_text_action_def field_def split: option.splits jsval.splits)
  then show ?thesis
    by cases (auto simp: l is_failed_def bind_exn_def failed_record_def action_contains_def field_def)
qed

lemma filter_exn_total:
  assumes "\<And>x. x \<in> set xs \<Longrightarrow> p x = Inr (q x)"
  shows "filter_exn p xs = Inr (filter q xs)"
  using assms by (induction xs) auto

text \<open>
  C4.  On a batch of records whose \<open>action\<close> is a string (or missing), \<open>stats.failed\<close> is
  the number of records that satisfy the disjunction; a record counts once however many
  disjuncts it satisfies.  The record of the scenario satisfies two of them and gives
  \<open>failed = 1\<close>, \<open>critical = 0\<close>.
\<close>

theorem stats_failed_counts_once:
  "(list_all has_text_action batch \<longrightarrow>
      stats_failed batch = Inr (length (filter failed_record batch))) \<and>
   stats_failed [scenario_record] = Inr 1 \<and>
   stats_critical [scenario_record] = Inr 0"
proof -
  have "stats_failed batch = Inr (length (filter failed_record batch))" if "list_all has_text_action batch"
  proof -
    have "filter_exn is_failed batch = Inr (filter failed_record batch)"
      by (rule filter_exn_total) (use that in \<open>simp add: list_all_iff is_failed_text_action\<close>)
    then show ?thesis by (simp add: stats_failed_def bind_exn_def)
  qed
  moreover have "stats_failed [scenario_record] = Inr 1" by code_simp
  moreover have "stats_critical [scenario_record] = Inr 0" by code_simp
  ultimately show ?thesis by blast
qed

theorem stats_failed_counts_once_witness:
  "list_all has_text_action example_batch \<and>
   stats_failed example_batch = Inr 2 \<and>
   filter failed_record example_batch = take 2 example_batch \<and>
   action_contains scenario_record (str ''FAILED'') \<and>
   field scenario_record (str ''event_id'') = Some (JNum 4625)"
proof -
  have a: "list_all has_text_action example_batch" by code_simp
  have b: "filter failed_record example_batch = take 2 example_batch" by code_simp
  have c: "action_contains scenario_record (str ''FAILED'')" by code_simp
  have d: "field scenario_record (str ''event_id'') = Some (JNum 4625)" by code_simp
  have e: "length (take 2 example_batch) = 2" by code_simp
  from stats_failed_counts_once [of example_batch] a b c d e show ?thesis by simp
qed

subsection \<open>The chart data\<close>

lemma time_label_chartable:
  assumes "chartable lt l"
  shows "time_label lt l = Inr (label_of lt l)"
proof -
  from assms obtain ms where "l = JObj ms"
    by (auto simp: chartable_def has_text_action_def split: jsval.splits)
  with assms show ?thesis
    by (auto simp: chartable_def time_label_def label_of_def field_def bind_exn_def)
qed

lemma action_failed_text_action:
  assumes "has_text_action l"
  shows "action_failed l = Inr (action_contains l (str ''FAILED''))"
proof -
  from assms obtain ms where l: "l = JObj ms"
    by (auto simp: has_text_action_def split: jsval.splits)
  from assms l consider "map_of (rev ms) (str ''action'') = None"
    | a where "map_of (rev ms) (str ''action'') = Some (JStr a)"
    by (auto simp: has_text_action_def field_def split: option.splits jsval.splits)
  then show ?thesis
    by cases (auto simp: l action_failed_def bind_exn_def action_contains_def field_def)
qed

lemma reduce_exn_chartable:
  assumes "list_all (chartable lt) batch"
  shows "reduce_exn (chart_step lt) batch acc = Inr (foldl (pure_step lt) acc batch)"
  using assms
proof (induction batch arbitrary: acc)
  case Nil
  then show ?case by simp
next
  case (Cons l batch)
  then have "chartable lt l" and rest: "list_all (chartable lt) batch" by simp_all
  then have "chart_step lt acc l = Inr (pure_step lt acc l)"
    by (simp add: chart_step_def pure_step_def time_label_chartable action_failed_text_action
        chartable_def bind_exn_def)
  with Cons.IH [OF rest] show ?case by simp
qed

lemma times_add_point:
  "map time (add_point t f acc) = (if t \<in> set (map time acc) then map time acc else map time acc @ [t])"
  by (induction acc) auto

lemma distinct_add_point:
  "distinct (map time acc) \<Longrightarrow> distinct (map time (add_point t f acc))"
  by (simp add: times_add_point)

lemma count_add_point:
  "sum_list (map count (filter (\<lambda>p. time p = u) (add_point t f acc))) =
     sum_list (map count (filter (\<lambda>p. time p = u) acc)) + (if t = u then 1 else 0)"
  by (induction acc) auto

lemma failed_add_point:
  "sum_list (map failed (filter (\<lambda>p. time p = u) (add_point t f acc))) =
     sum_list (map failed (filter (\<lambda>p. time p = u) acc)) + (if t = u \<and> f then 1 else 0)"
  by (induction acc) auto

lemma set_times_add_point:
  "time ` set (add_point t f acc) = insert t (time ` set acc)"
  using arg_cong [OF times_add_point [of t f acc], of set] by auto

lemma times_foldl:
  "time ` set (foldl (pure_step lt) acc batch) = time ` set acc \<union> label_of lt ` set batch"
  by (induction batch arbitrary: acc) (simp_all add: pure_step_def set_times_add_point)

lemma distinct_foldl:
  "distinct (map time acc) \<Longrightarrow> distinct (map time (foldl (pure_step lt) acc batch))"
  by (induction batch arbitrary: acc) (auto simp: pure_step_def distinct_add_point)

lemma count_foldl:
  "sum_list (map count (filter (\<lambda>p. time p = u) (foldl (pure_step lt) acc batch))) =
     sum_list (map count (filter (\<lambda>p. time p = u) acc)) + length (filter (\<lambda>l. label_of lt l = u) batch)"
  by (induction batch arbitrary: acc) (auto simp: pure_step_def count_add_point)

lemma failed_foldl:
  "sum_list (map failed (filter (\<lambda>p. time p = u) (foldl (pure_step lt) acc batch))) =
     sum_list (map failed (filter (\<lambda>p. time p = u) acc)) +
     length (filter (\<lambda>l. label_of lt l = u \<and> action_contains l (str ''FAILED'')) batch)"
  by (induction batch arbitrary: acc) (auto simp: pure_step_def failed_add_point)

lemma filter_time_distinct:
  assumes "distinct (map time acc)" and "p \<in> set acc"
  shows "filter (\<lambda>q. time q = time p) acc = [p]"
  using assms
proof (induction acc)
  case Nil
  then show ?case by simp
next
  case (Cons a acc)
  show ?case
  proof (cases "a = p")
    case True
    with Cons.prems have "time p \<notin> time ` set acc" by simp
    then have "\<forall>q\<in>set acc. time q \<noteq> time p" by (metis image_eqI)
    then have "filter (\<lambda>q. time q = time p) acc = []" by (simp add: filter_empty_conv)
    with True show ?thesis by simp
  next
    case False
    with Cons.prems have "p \<in> set acc" "time a \<noteq> time p" by auto
    with Cons show ?thesis by simp
  qed
qed

lemma point_counts:
  assumes "p \<in> set (foldl (pure_step lt) [] batch)"
  shows "count p = length (filter (\<lambda>l. label_of lt l = time p) batch)"
    and "failed p = length (filter (\<lambda>l. label_of lt l = time p \<and> action_contains l (str ''FAILED'')) batch)"
proof -
  have d: "distinct (map time (foldl (pure_step lt) [] batch))"
    by (rule distinct_foldl) simp
  have f: "filter (\<lambda>q. time q = time p) (foldl (pure_step lt) [] batch) = [p]"
    by (rule filter_time_distinct [OF d assms])
  from count_foldl [of "time p" lt "[]" batch] f
  show "count p = length (filter (\<lambda>l. label_of lt l = time p) batch)" by simp
  from failed_foldl [of "time p" lt "[]" batch] f
  show "failed p = length (filter (\<lambda>l. label_of lt l = time p \<and> action_contains l (str ''FAILED'')) batch)"
    by simp
qed

lemma sorted_times:
  fixes acc :: "chart_point list"
  assumes "distinct (map time acc)"
  shows "map time (sort_key time acc) = sorted_list_of_set (time ` set acc)"
proof -
  have "card (set (map time (sort_key time acc))) = length (map time (sort_key time acc))"
    using distinct_card [OF assms] by simp
  then have "distinct (map time (sort_key time acc))"
    by (rule card_distinct)
  then have "sorted_list_of_set (set (map time (sort_key time acc))) = map time (sort_key time acc)"
    by (intro sorted_list_of_set.idem_if_sorted_distinct sorted_sort_key)
  then show ?thesis by simp
qed

lemma chart_step_distinct:
  assumes "chart_step lt acc l = Inr acc'" and "distinct (map time acc)"
  shows "distinct (map time acc')"
proof -
  from assms(1) obtain t f where "acc' = add_point t f acc"
    by (auto simp: chart_step_def bind_exn_def split: sum.splits)
  with assms(2) show ?thesis by (simp add: distinct_add_point)
qed

lemma reduce_exn_distinct:
  assumes "reduce_exn (chart_step lt) batch acc = Inr acc'" and "distinct (map time acc)"
  shows "distinct (map time acc')"
  using assms
proof (induction batch arbitrary: acc)
  case Nil
  then show ?case by simp
next
  case (Cons l batch)
  from Cons.prems(1) obtain acc1 where s: "chart_step lt acc l = Inr acc1"
    and r: "reduce_exn (chart_step lt) batch acc1 = Inr acc'"
    by (auto split: sum.splits)
  from chart_step_distinct [OF s Cons.prems(2)] have "distinct (map time acc1)" .
  from Cons.IH [OF r this] show ?case .
qed

lemma chartData_bounded_sorted:
  assumes "chartData lt batch = Inr pts"
  shows "length pts \<le> 20 \<and> sorted_wrt (<) (map time pts)"
proof -
  from assms obtain acc where r: "reduce_exn (chart_step lt) batch [] = Inr acc"
    and pts: "pts = slice_last 20 (sort_key time acc)"
    by (auto simp: chartData_def bind_exn_def split: sum.splits)
  have d: "distinct (map time acc)"
    by (rule reduce_exn_distinct [OF r]) simp
  have "sorted_wrt (<) (map time (sort_key time acc))"
    unfolding sorted_times [OF d] by (simp add: strict_sorted_iff)
  then have "sorted_wrt (<) (drop (length acc - 20) (map time (sort_key time acc)))"
    by (rule sorted_wrt_drop)
  then show ?thesis
    by (simp add: pts slice_last_def drop_map)
qed

text \<open>
  C5.  Whenever \<open>chartData\<close> is computed it has at most 20 elements, and their labels are
  strictly ascending.  On a batch of records with a valid timestamp and a string (or no)
  \<open>action\<close> it is computed, and then: its labels are the distinct \<open>HH:mm\<close> labels of
  the batch in ascending order, without the earliest ones when there are more than 20; the
  \<open>count\<close> of an element is the number of records with its label, and its \<open>failed\<close> the
  number of those whose \<open>action\<close> contains \<open>FAILED\<close> (the status code and the event id
  play no part, unlike in \<open>stats.failed\<close>).
\<close>

theorem chartData_timeline:
  "(\<forall>pts. chartData lt batch = Inr pts \<longrightarrow> length pts \<le> 20 \<and> sorted_wrt (<) (map time pts)) \<and>
   (list_all (chartable lt) batch \<longrightarrow>
      (\<exists>pts. chartData lt batch = Inr pts \<and>
           map time pts = slice_last 20 (sorted_list_of_set (label_of lt ` set batch)) \<and>
           (\<forall>p\<in>set pts.
              count p = length (filter (\<lambda>l. label_of lt l = time p) batch) \<and>
              failed p = length (filter (\<lambda>l. label_of lt l = time p \<and> action_contains l (str ''FAILED'')) batch))))"
proof -
  have "\<exists>pts. chartData lt batch = Inr pts \<and>
           map time pts = slice_last 20 (sorted_list_of_set (label_of lt ` set batch)) \<and>
           (\<forall>p\<in>set pts.
              count p = length (filter (\<lambda>l. label_of lt l = time p) batch) \<and>
              failed p = length (filter (\<lambda>l. label_of lt l = time p \<and> action_contains l (str ''FAILED'')) batch))"
    if ok: "list_all (chartable lt) batch"
  proof -
    define acc where "acc = foldl (pure_step lt) [] batch"
    define pts where "pts = slice_last 20 (sort_key time acc)"
    have run: "chartData lt batch = Inr pts"
      by (simp add: chartData_def reduce_exn_chartable [OF ok] bind_exn_def pts_def acc_def)
    have d: "distinct (map time acc)"
      unfolding acc_def by (rule distinct_foldl) simp
    have labels: "time ` set acc = label_of lt ` set batch"
      unfolding acc_def by (simp add: times_foldl)
    have all: "map time (sort_key time acc) = sorted_list_of_set (label_of lt ` set batch)"
      using sorted_times [OF d] labels by simp
    have n: "length acc = card (label_of lt ` set batch)"
      using distinct_card [OF d] labels by simp
    have times: "map time pts = slice_last 20 (sorted_list_of_set (label_of lt ` set batch))"
      using all n by (simp add: pts_def slice_last_def drop_map [symmetric])
    have "set pts \<subseteq> set acc"
      using set_drop_subset [of "length (sort_key time acc) - 20" "sort_key time acc"]
      by (simp add: pts_def slice_last_def)
    then have counts: "\<forall>p\<in>set pts.
        count p = length (filter (\<lambda>l. label_of lt l = time p) batch) \<and>
        failed p = length (filter (\<lambda>l. label_of lt l = time p \<and> action_contains l (str ''FAILED'')) batch)"
      using point_counts [of _ lt batch] unfolding acc_def by blast
    from run times counts show ?thesis by blast
  qed
  then show ?thesis
    using chartData_bounded_sorted [of lt batch] by blast
qed

theorem chartData_timeline_witness:
  "list_all (chartable utc_of_iso) timeline_batch \<and>
   chartData utc_of_iso timeline_batch =
     Inr [\<lparr>time = str ''09:59'', count = 1, failed = 0\<rparr>, \<lparr>time = str ''10:05'', count = 2, failed = 1\<rparr>] \<and>
   stats_failed timeline_batch = Inr 2 \<and>
   length minutes_batch = 21 \<and>
   label_of utc_of_iso (minute_entry 0) = str ''10:00'' \<and>
   chartData utc_of_iso minutes_batch =
     Inr (map (\<lambda>i. \<lparr>time = format_HHmm (10, i), count = 1, failed = 0\<rparr>) [1..<21])"
proof -
  have a: "list_all (chartable utc_of_iso) timeline_batch" by code_simp
  have b: "chartData utc_of_iso timeline_batch =
     Inr [\<lparr>time = str ''09:59'', count = 1, failed = 0\<rparr>, \<lparr>time = str ''10:05'', count = 2, failed = 1\<rparr>]"
    by code_simp
  have c: "stats_failed timeline_batch = Inr 2" by code_simp
  have d: "length minutes_batch = 21" by (simp add: minutes_batch_def)
  have f: "label_of utc_of_iso (minute_entry 0) = str ''10:00''" by code_simp
  have g: "chartData utc_of_iso minutes_batch =
     Inr (map (\<lambda>i. \<lparr>time = format_HHmm (10, i), count = 1, failed = 0\<rparr>) [1..<21])"
    by (simp add: chartData_def bind_exn_def chart_step_def time_label_def action_failed_def
        minutes_batch_def minute_entry_def utc_of_iso_def format_HHmm_def addLeadingZeros_def
        str_def is_digit_def digits_val_def digit_val_def slice_last_def startsWith_def upt_rec)
  from chartData_timeline [of utc_of_iso timeline_batch] a b c d f g show ?thesis by simp
qed

subsection \<open>The chat handler\<close>

text \<open>
  C8.  With a non-empty batch the text handed to the analyzer is the label
  \<open>Current Logs Context: \<close>, the serialization of the first 50 records of the batch (of
  all of them when there are fewer), two line feeds and the message; with an empty batch
  it is the message alone.  A batch of 60 records gives its first 50.  This is what
  \<open>handleChatSubmit\<close> sends for a message that is not blank and does not ask for the
  demo.
\<close>

theorem chat_context_window:
  "(batch \<noteq> [] \<longrightarrow>
      chat_context JSON_stringify batch @ msg =
        str ''Current Logs Context: '' @ JSON_stringify (take 50 batch) @ str ''\<newline>\<newline>'' @ msg) \<and>
   (batch = [] \<longrightarrow> chat_context JSON_stringify batch @ msg = msg) \<and>
   length (take 50 batch) \<le> 50 \<and>
   (\<forall>i<length (take 50 batch). take 50 batch ! i = batch ! i) \<and>
   (length batch = 60 \<longrightarrow> length (take 50 batch) = 50) \<and>
   (trim msg \<noteq> [] \<and> \<not> includes_str (toLowerCase msg) (str ''demo'') \<longrightarrow>
      handleChatSubmit JSON_stringify toLowerCase batch msg = Ask (chat_context JSON_stringify batch @ msg))"
  by (simp add: chat_context_def handleChatSubmit_def)

theorem chat_context_window_witness:
  "replicate 60 scenario_record \<noteq> [] \<and> length (replicate 60 scenario_record) = 60 \<and>
   chat_context example_stringify (replicate 60 scenario_record) @ str ''any brute force?'' =
     str ''Current Logs Context: '' @ example_stringify (replicate 50 scenario_record) @
     str ''\<newline>\<newline>any brute force?'' \<and>
   chat_context example_stringify [] @ str ''any brute force?'' = str ''any brute force?'' \<and>
   trim (str ''any brute force?'') \<noteq> [] \<and>
   \<not> includes_str (ascii_lower (str ''any brute force?'')) (str ''demo'') \<and>
   handleChatSubmit example_stringify ascii_lower [] (str ''any brute force?'') = Ask (str ''any brute force?'')"
proof -
  have a: "trim (str ''any brute force?'') \<noteq> []" by code_simp
  have b: "\<not> includes_str (ascii_lower (str ''any brute force?'')) (str ''demo'')" by code_simp
  have c: "replicate 60 scenario_record \<noteq> []" by simp
  from chat_context_window [of "replicate 60 scenario_record" example_stringify "str ''any brute force?''" ascii_lower]
    chat_context_window [of "[]" example_stringify "str ''any brute force?''" ascii_lower] a b c
  show ?thesis by (simp add: str_def)
qed

subsection \<open>The generator\<close>

lemma random_range: "0 \<le> random rnd k \<and> random rnd k < 1"
proof -
  have "of_int \<lfloor>rnd k\<rfloor> \<le> rnd k" and "rnd k < of_int \<lfloor>rnd k\<rfloor> + 1"
    by linarith+
  then show ?thesis by (simp add: random_def)
qed

text \<open>The index computed from a draw is within the pool.\<close>

lemma pick_in_pool:
  assumes "pool \<noteq> []"
  shows "pick pool (random rnd k) \<in> set pool"
proof -
  define r where "r = random rnd k"
  define n where "n = length pool"
  have r: "0 \<le> r" "r < 1" using random_range [of rnd k] by (simp_all add: r_def)
  have n: "0 < n" using assms by (simp add: n_def)
  have "0 \<le> r * of_nat n" using r by simp
  then have lo: "0 \<le> \<lfloor>r * of_nat n\<rfloor>" by simp
  have "r * of_nat n < 1 * of_nat n" using r n by (intro mult_strict_right_mono) simp_all
  then have hi: "\<lfloor>r * of_nat n\<rfloor> < int n" by (simp add: floor_less_iff)
  have "nat \<lfloor>r * of_nat n\<rfloor> < n"
    using lo hi nat_less_iff by blast
  then show ?thesis by (simp add: pick_def r_def n_def)
qed

lemma pool_entries: "ips ! 2 = str ''203.0.113.5''" "users ! 0 = str ''admin''"
  by (simp_all add: ips_def users_def)

lemma burst_loop_unfold:
  "j \<le> 8 \<Longrightarrow> burst_loop t j acc = acc @ map (burst_entry t) [j..<8]"
proof (induction t j acc rule: burst_loop.induct)
  case (1 t j acc)
  show ?case
  proof (cases "j < 8")
    case True
    then have "burst_loop t j acc = burst_loop t (j + 1) (acc @ [burst_entry t j])"
      by (subst burst_loop.simps) (simp add: burst_entry_def pool_entries)
    also have "\<dots> = (acc @ [burst_entry t j]) @ map (burst_entry t) [j + 1..<8]"
      using True "1.IH" [OF True] by (simp add: burst_entry_def pool_entries)
    also have "\<dots> = acc @ map (burst_entry t) [j..<8]"
      using True by (simp add: upt_conv_Cons)
    finally show ?thesis .
  next
    case False
    with "1.prems" show ?thesis by (subst burst_loop.simps) simp
  qed
qed

lemma burst_loop_append: "burst_loop t 0 acc = acc @ burst_loop t 0 []"
  by (simp add: burst_loop_unfold)

lemma burst_nth: "j < 8 \<Longrightarrow> burst_loop t 0 [] ! j = burst_entry t j"
  by (simp add: burst_loop_unfold)

lemma burst_length: "length (burst_loop t 0 acc) = length acc + 8"
  by (simp add: burst_loop_unfold)

lemma gen_loop_length:
  "(i < cnt \<longrightarrow>
      cnt - i \<le> int (length (gen_loop now rnd cnt i k acc)) - int (length acc) \<and>
      int (length (gen_loop now rnd cnt i k acc)) - int (length acc) \<le> cnt - i + 7) \<and>
   (\<not> i < cnt \<longrightarrow> gen_loop now rnd cnt i k acc = acc)"
proof (induction now rnd cnt i k acc rule: gen_loop.induct)
  case (1 now rnd cnt i k acc)
  define t where "t = slot_time now (random rnd k)"
  show ?case
  proof (cases "i < cnt")
    case False
    then show ?thesis by (subst gen_loop.simps) simp
  next
    case True
    show ?thesis
    proof (cases "random rnd (k + 1) < 1 / 20")
      case attack: True
      have eq: "gen_loop now rnd cnt i k acc = gen_loop now rnd cnt (i + 7 + 1) (k + 2) (burst_loop t 0 acc)"
        using True attack by (subst gen_loop.simps) (simp add: t_def Let_def)
      from "1.IH"(1) [OF True t_def [symmetric, THEN eq_reflection, THEN meta_eq_to_obj_eq, symmetric] refl attack]
      show ?thesis using True unfolding eq by (auto simp: burst_length)
    next
      case normal: False
      have eq: "gen_loop now rnd cnt i k acc = gen_loop now rnd cnt (i + 1) (k + 7) (acc @ [normal_entry rnd k t])"
        using True normal by (subst gen_loop.simps) (simp add: t_def Let_def)
      from "1.IH"(2) [OF True t_def [symmetric, THEN eq_reflection, THEN meta_eq_to_obj_eq, symmetric] refl normal]
      show ?thesis using True unfolding eq by auto
    qed
  qed
qed

lemma random_attack_last:
  "random (attack_last m) k = (if k = 7 * m + 1 then 0 else 1 / 2)"
proof -
  have "\<lfloor>1 / 2 :: rat\<rfloor> = 0" by (simp add: floor_eq_iff)
  then show ?thesis by (simp add: random_def attack_last_def)
qed

lemma gen_loop_attack_last:
  assumes "0 \<le> i" and "i < cnt"
  shows "length (gen_loop now (attack_last (nat (cnt - 1))) cnt i (7 * nat i) acc) =
           length acc + nat (cnt - 1 - i) + 8"
  using assms
proof (induction "nat (cnt - 1 - i)" arbitrary: i acc)
  case 0
  then have i: "i = cnt - 1" by simp
  define t where "t = slot_time now (random (attack_last (nat (cnt - 1))) (7 * nat i))"
  have "gen_loop now (attack_last (nat (cnt - 1))) cnt i (7 * nat i) acc =
          gen_loop now (attack_last (nat (cnt - 1))) cnt (i + 7 + 1) (7 * nat i + 2) (burst_loop t 0 acc)"
    using 0 i by (subst gen_loop.simps) (simp add: random_attack_last Let_def t_def)
  also have "\<dots> = burst_loop t 0 acc"
    using i by (subst gen_loop.simps) simp
  finally show ?case using i by (simp add: burst_length)
next
  case (Suc n)
  then have lt: "i < cnt - 1" by simp
  define t where "t = slot_time now (random (attack_last (nat (cnt - 1))) (7 * nat i))"
  have ne: "7 * nat i + 1 \<noteq> 7 * nat (cnt - 1) + 1"
    using Suc.prems lt by simp
  have k: "7 * nat i + 7 = 7 * nat (i + 1)"
    using Suc.prems by (simp add: nat_add_distrib)
  have "gen_loop now (attack_last (nat (cnt - 1))) cnt i (7 * nat i) acc =
          gen_loop now (attack_last (nat (cnt - 1))) cnt (i + 1) (7 * nat i + 7)
            (acc @ [normal_entry (attack_last (nat (cnt - 1))) (7 * nat i) t])"
    using Suc.prems ne by (subst gen_loop.simps) (simp add: random_attack_last Let_def t_def)
  moreover have "n = nat (cnt - 1 - (i + 1))" using Suc.hyps(2) by simp
  ultimately show ?case
    using Suc.hyps(1) [of "i + 1"] Suc.prems lt unfolding k by simp
qed

lemma gen_loop_attack:
  assumes "i < cnt" and "random rnd (k + 1) < 1 / 20"
  shows "gen_loop now rnd cnt i k acc =
           gen_loop now rnd cnt (i + 7 + 1) (k + 2) (burst_loop (slot_time now (random rnd k)) 0 acc)"
  using assms by (subst gen_loop.simps) (simp add: Let_def)

lemma gen_loop_normal:
  assumes "i < cnt" and "\<not> random rnd (k + 1) < 1 / 20"
  shows "gen_loop now rnd cnt i k acc =
           gen_loop now rnd cnt (i + 1) (k + 7) (acc @ [normal_entry rnd k (slot_time now (random rnd k))])"
  using assms by (subst gen_loop.simps) (simp add: Let_def)

lemma gen_reaches_result:
  assumes "gen_reaches now rnd cnt s"
  shows "gen_loop now rnd cnt (fst s) (fst (snd s)) (snd (snd s)) = gen_loop now rnd cnt 0 0 []"
  using assms
proof (induction rule: gen_reaches.induct)
  case start
  show ?case by simp
next
  case (attack i k acc)
  then show ?case using gen_loop_attack [of i cnt rnd k now acc] by simp
next
  case (normal i k acc)
  then show ?case using gen_loop_normal [of i cnt rnd k now acc] by simp
qed

lemma gen_loop_extends: "\<exists>rest. gen_loop now rnd cnt i k acc = acc @ rest"
proof (induction now rnd cnt i k acc rule: gen_loop.induct)
  case (1 now rnd cnt i k acc)
  define t where "t = slot_time now (random rnd k)"
  show ?case
  proof (cases "i < cnt")
    case False
    then show ?thesis by (subst gen_loop.simps) simp
  next
    case True
    show ?thesis
    proof (cases "random rnd (k + 1) < 1 / 20")
      case attack: True
      from "1.IH"(1) [OF True t_def [symmetric, THEN eq_reflection, THEN meta_eq_to_obj_eq, symmetric] refl attack]
      obtain rest where "gen_loop now rnd cnt (i + 7 + 1) (k + 2) (burst_loop t 0 acc) = burst_loop t 0 acc @ rest"
        by blast
      then show ?thesis
        using gen_loop_attack [OF True attack, of now acc] burst_loop_append [of t acc]
        by (simp add: t_def)
    next
      case normal: False
      from "1.IH"(2) [OF True t_def [symmetric, THEN eq_reflection, THEN meta_eq_to_obj_eq, symmetric] refl normal]
      obtain rest where "gen_loop now rnd cnt (i + 1) (k + 7) (acc @ [normal_entry rnd k t]) =
          (acc @ [normal_entry rnd k t]) @ rest"
        by blast
      then show ?thesis
        using gen_loop_normal [OF True normal, of now acc] by (simp add: t_def)
    qed
  qed
qed

lemma burst_in_result:
  assumes "gen_reaches now rnd cnt (i, k, acc)" and "i < cnt" and "random rnd (k + 1) < 1 / 20"
  shows "\<exists>rest. gen_loop now rnd cnt 0 0 [] = acc @ burst_loop (slot_time now (random rnd k)) 0 [] @ rest"
proof -
  define t where "t = slot_time now (random rnd k)"
  from gen_loop_extends [of now rnd cnt "i + 7 + 1" "k + 2" "burst_loop t 0 acc"]
  obtain rest where "gen_loop now rnd cnt (i + 7 + 1) (k + 2) (burst_loop t 0 acc) = burst_loop t 0 acc @ rest"
    by blast
  with gen_loop_attack [OF assms(2,3), of now acc]
  have "gen_loop now rnd cnt i k acc = acc @ burst_loop t 0 [] @ rest"
    using burst_loop_append [of t acc] by (simp add: t_def)
  with gen_reaches_result [OF assms(1)]
  have "gen_loop now rnd cnt 0 0 [] = acc @ burst_loop t 0 [] @ rest"
    by simp
  then show ?thesis
    unfolding t_def by blast
qed


text \<open>
  C9.  For \<open>count \<ge> 0\<close> the generator returns at least \<open>count\<close> and at most \<open>count + 7\<close>
  entries, and \<open>cnt + 7\<close> is reached: a burst in the last slot still pushes its 8
  entries.
\<close>

theorem generateDemoLogs_length:
  "(0 \<le> cnt \<longrightarrow>
      cnt \<le> int (length (generateDemoLogs now rnd cnt)) \<and>
      int (length (generateDemoLogs now rnd cnt)) \<le> cnt + 7) \<and>
   (1 \<le> cnt \<longrightarrow> (\<exists>rnd'. int (length (generateDemoLogs now rnd' cnt)) = cnt + 7))"
proof -
  have "cnt \<le> int (length (generateDemoLogs now rnd cnt)) \<and>
        int (length (generateDemoLogs now rnd cnt)) \<le> cnt + 7" if "0 \<le> cnt"
    using that gen_loop_length [of 0 cnt now rnd 0 "[]"]
    by (cases "0 < cnt") (simp_all add: generateDemoLogs_def)
  moreover have "\<exists>rnd'. int (length (generateDemoLogs now rnd' cnt)) = cnt + 7" if "1 \<le> cnt"
  proof
    show "int (length (generateDemoLogs now (attack_last (nat (cnt - 1))) cnt)) = cnt + 7"
      using that gen_loop_attack_last [of 0 cnt now "[]"] by (simp add: generateDemoLogs_def)
  qed
  ultimately show ?thesis by blast
qed

theorem generateDemoLogs_length_witness:
  "(0::int) \<le> 3 \<and>
   3 \<le> int (length (generateDemoLogs 1767225600000 (\<lambda>k. 1 / 2) 3)) \<and>
   int (length (generateDemoLogs 1767225600000 (\<lambda>k. 1 / 2) 3)) \<le> 10 \<and>
   (1::int) \<le> 1 \<and>
   length (generateDemoLogs 1767225600000 (attack_last 0) 1) = 8"
proof -
  have "length (gen_loop 1767225600000 (attack_last (nat (1 - 1))) 1 0 (7 * nat 0) []) =
          length ([] :: LogEntry list) + nat (1 - 1 - 0) + 8"
    by (rule gen_loop_attack_last) simp_all
  then have b: "length (generateDemoLogs 1767225600000 (attack_last 0) 1) = 8"
    by (simp add: generateDemoLogs_def)
  from generateDemoLogs_length [of 3 1767225600000 "\<lambda>k. 1 / 2"] b show ?thesis by simp
qed

text \<open>
  C6.  At a slot where \<open>isAttack\<close> holds, the loop pushes the 8 entries of a burst one
  after the other and goes on at the slot \<open>i + 1 + 7\<close>; when a run reaches such a slot,
  the array it builds holds these 8 entries next to each other, and all of them are in
  the array returned.  The entries of a burst have
  timestamps one second apart, ascending from the instant of the slot, the third address
  of the pool, the first user of the pool, the action \<open>LOGIN_FAILED\<close>, the event id 4625
  and the severity \<open>High\<close>.  The array returned holds the entries pushed, sorted by
  timestamp.
\<close>

theorem burst_injection:
  "(i < cnt \<and> random rnd (k + 1) < 1 / 20 \<longrightarrow>
      gen_loop now rnd cnt i k acc =
        gen_loop now rnd cnt (i + 1 + 7) (k + 2) (acc @ burst_loop (slot_time now (random rnd k)) 0 [])) \<and>
   (gen_reaches now rnd cnt (i, k, acc) \<and> i < cnt \<and> random rnd (k + 1) < 1 / 20 \<longrightarrow>
      gen_reaches now rnd cnt (i + 1 + 7, k + 2, acc @ burst_loop (slot_time now (random rnd k)) 0 []) \<and>
      (\<exists>rest. gen_loop now rnd cnt 0 0 [] = acc @ burst_loop (slot_time now (random rnd k)) 0 [] @ rest) \<and>
      set (burst_loop (slot_time now (random rnd k)) 0 []) \<subseteq> set (generateDemoLogs now rnd cnt)) \<and>
   length (burst_loop t 0 []) = 8 \<and>
   (\<forall>j<8. burst_loop t 0 [] ! j =
      \<lparr>timestamp = t + int j * 1000, event_id = Some (EventNum 4625), user = Some (users ! 0),
       ip = ips ! 2, action = str ''LOGIN_FAILED'', status_code = None, user_agent = None,
       severity = Some (str ''High''), message = None\<rparr>) \<and>
   (\<forall>j<7. timestamp (burst_loop t 0 [] ! Suc j) - timestamp (burst_loop t 0 [] ! j) = 1000) \<and>
   ips ! 2 = str ''203.0.113.5'' \<and> users ! 0 = str ''admin'' \<and>
   sorted (map timestamp (generateDemoLogs now rnd cnt)) \<and>
   set (generateDemoLogs now rnd cnt) = set (gen_loop now rnd cnt 0 0 [])"
proof -
  have step: "gen_loop now rnd cnt i k acc =
        gen_loop now rnd cnt (i + 1 + 7) (k + 2) (acc @ burst_loop (slot_time now (random rnd k)) 0 [])"
    if "i < cnt" "random rnd (k + 1) < 1 / 20"
    using gen_loop_attack [OF that, of now acc] burst_loop_append [of _ acc] by (simp add: add.commute)
  have out: "set (generateDemoLogs now rnd cnt) = set (gen_loop now rnd cnt 0 0 [])"
    by (simp add: generateDemoLogs_def)
  have reach: "gen_reaches now rnd cnt (i + 1 + 7, k + 2, acc @ burst_loop (slot_time now (random rnd k)) 0 []) \<and>
      (\<exists>rest. gen_loop now rnd cnt 0 0 [] = acc @ burst_loop (slot_time now (random rnd k)) 0 [] @ rest) \<and>
      set (burst_loop (slot_time now (random rnd k)) 0 []) \<subseteq> set (generateDemoLogs now rnd cnt)"
    if r: "gen_reaches now rnd cnt (i, k, acc)" and a: "i < cnt" "random rnd (k + 1) < 1 / 20"
  proof -
    from gen_reaches.attack [OF r a]
    have "gen_reaches now rnd cnt (i + 1 + 7, k + 2, acc @ burst_loop (slot_time now (random rnd k)) 0 [])"
      using burst_loop_append [of _ acc] by (simp add: add.commute)
    moreover from burst_in_result [OF r a] obtain rest
      where rest: "gen_loop now rnd cnt 0 0 [] = acc @ burst_loop (slot_time now (random rnd k)) 0 [] @ rest"
      by blast
    moreover from rest have "set (burst_loop (slot_time now (random rnd k)) 0 []) \<subseteq> set (generateDemoLogs now rnd cnt)"
      unfolding out by auto
    ultimately show ?thesis by blast
  qed
  have shape: "\<forall>j<8. burst_loop t 0 [] ! j =
      \<lparr>timestamp = t + int j * 1000, event_id = Some (EventNum 4625), user = Some (users ! 0),
       ip = ips ! 2, action = str ''LOGIN_FAILED'', status_code = None, user_agent = None,
       severity = Some (str ''High''), message = None\<rparr>"
    by (simp add: burst_nth burst_entry_def pool_entries)
  have gap: "\<forall>j<7. timestamp (burst_loop t 0 [] ! Suc j) - timestamp (burst_loop t 0 [] ! j) = 1000"
    by (simp add: burst_nth burst_entry_def)
  have srt: "sorted (map timestamp (generateDemoLogs now rnd cnt))"
    by (simp add: generateDemoLogs_def)
  from step reach shape gap srt out pool_entries burst_length [of t "[]"]
  show ?thesis by simp
qed

theorem burst_injection_witness:
  "(0::int) < 1 \<and> random (attack_last 0) (0 + 1) < 1 / 20 \<and>
   gen_reaches 1767225600000 (attack_last 0) 1 (0, 0, []) \<and>
   slot_time 1767225600000 (random (attack_last 0) 0) = 1767223800000 \<and>
   gen_loop 1767225600000 (attack_last 0) 1 0 0 [] = burst_loop 1767223800000 0 [] \<and>
   set (burst_loop 1767223800000 0 []) \<subseteq> set (generateDemoLogs 1767225600000 (attack_last 0) 1) \<and>
   length (burst_loop 1767223800000 0 []) = 8 \<and>
   timestamp (burst_loop 1767223800000 0 [] ! 0) = 1767223800000 \<and>
   timestamp (burst_loop 1767223800000 0 [] ! 7) = 1767223807000 \<and>
   ip (burst_loop 1767223800000 0 [] ! 7) = str ''203.0.113.5'' \<and>
   user (burst_loop 1767223800000 0 [] ! 7) = Some (str ''admin'') \<and>
   sorted (map timestamp (generateDemoLogs 1767225600000 (attack_last 0) 1))"
proof -
  have a: "random (attack_last 0) (0 + 1) < 1 / 20"
    by (simp add: random_attack_last)
  have r: "gen_reaches 1767225600000 (attack_last 0) 1 (0, 0, [])"
    by (rule gen_reaches.start)
  have t: "slot_time 1767225600000 (random (attack_last 0) 0) = 1767223800000"
    by code_simp
  have stop: "gen_loop 1767225600000 (attack_last 0) 1 (0 + 1 + 7) (0 + 2) xs = xs" for xs
    by (subst gen_loop.simps) simp
  note inst = burst_injection [of 0 1 "attack_last 0" 0 1767225600000 "[]" 1767223800000]
  from inst a have "gen_loop 1767225600000 (attack_last 0) 1 0 0 [] =
      gen_loop 1767225600000 (attack_last 0) 1 (0 + 1 + 7) (0 + 2)
        ([] @ burst_loop (slot_time 1767225600000 (random (attack_last 0) 0)) 0 [])"
    by simp
  then have run: "gen_loop 1767225600000 (attack_last 0) 1 0 0 [] = burst_loop 1767223800000 0 []"
    unfolding stop t by simp
  have lt: "(0::int) < 1"
    by simp
  from inst lt a r have sub: "set (burst_loop 1767223800000 0 []) \<subseteq> set (generateDemoLogs 1767225600000 (attack_last 0) 1)"
    unfolding t by blast
  from inst have len: "length (burst_loop 1767223800000 0 []) = 8"
    and first: "burst_loop 1767223800000 0 [] ! 0 =
      \<lparr>timestamp = 1767223800000 + int 0 * 1000, event_id = Some (EventNum 4625), user = Some (users ! 0),
       ip = ips ! 2, action = str ''LOGIN_FAILED'', status_code = None, user_agent = None,
       severity = Some (str ''High''), message = None\<rparr>"
    and last: "burst_loop 1767223800000 0 [] ! 7 =
      \<lparr>timestamp = 1767223800000 + int 7 * 1000, event_id = Some (EventNum 4625), user = Some (users ! 0),
       ip = ips ! 2, action = str ''LOGIN_FAILED'', status_code = None, user_agent = None,
       severity = Some (str ''High''), message = None\<rparr>"
    and pool: "ips ! 2 = str ''203.0.113.5''" "users ! 0 = str ''admin''"
    and sorted: "sorted (map timestamp (generateDemoLogs 1767225600000 (attack_last 0) 1))"
    by simp_all
  from a r t run sub len sorted show ?thesis
    unfolding first last pool by simp
qed

end
